theory Spec2Isabelle
  imports Main "HOL-Library.Word"
begin

unbundle bit_operations_syntax

section \<open>The raw-Ethernet datapath of eRPC: \<^verbatim>\<open>raw_transport_datapath.cc\<close>\<close>

text \<open>
  The three member functions \<^verbatim>\<open>tx_burst\<close>, \<^verbatim>\<open>rx_burst\<close> and \<^verbatim>\<open>post_recvs\<close> of
  \<^verbatim>\<open>RawTransport\<close> are embedded as functions on an explicit state. Machine integers
  keep their width (LP64): \<^verbatim>\<open>size_t\<close> is a 64-bit word, \<^verbatim>\<open>uint32_t\<close> a 32-bit
  word, \<^verbatim>\<open>int\<close> a 32-bit word read through \<open>sint\<close>, and every conversion of the source is a
  \<open>ucast\<close> or \<open>scast\<close> here. An array access outside its array, a modulo by zero, a
  failed \<^verbatim>\<open>assert\<close> and \<^verbatim>\<open>exit(-1)\<close> are results of the sum type, never values.
\<close>

subsection \<open>Machine types\<close>

type_synonym size_t = "64 word"
type_synonym uint64_t = "64 word"
type_synonym uint32_t = "32 word"
type_synonym uint16_t = "16 word"
type_synonym uint8_t = "8 word"
type_synonym c_int = "32 word"

subsection \<open>Verbs descriptors\<close>

text \<open>
  An address stored in a scatter-gather entry is kept symbolic: the header of packet
  \<open>k\<close> of a message buffer, or the byte at an offset of the buffer's data.
\<close>

datatype sge_addr_t = NullAddr | PktHdrAddr nat nat | BufAddr nat size_t

record ibv_sge =
  sge_addr :: sge_addr_t
  sge_length :: uint32_t
  sge_lkey :: uint32_t

datatype ibv_wr_opcode =
  IBV_WR_RDMA_WRITE | IBV_WR_RDMA_WRITE_WITH_IMM | IBV_WR_SEND | IBV_WR_SEND_WITH_IMM
  | IBV_WR_RDMA_READ

text \<open>
  A pointer to an element of \<^verbatim>\<open>send_wr\<close> (or of \<^verbatim>\<open>recv_wr\<close>) is the element's index;
  \<open>None\<close> is \<^verbatim>\<open>nullptr\<close>. \<open>sg_list\<close> points to a row of \<^verbatim>\<open>send_sgl\<close>.
\<close>

record ibv_send_wr =
  wr_next :: "nat option"
  opcode :: ibv_wr_opcode
  sg_list :: "nat option"
  num_sge :: c_int
  send_flags :: uint32_t

record ibv_recv_wr =
  recv_wr_next :: "nat option"

definition IBV_SEND_INLINE :: uint32_t where
  "IBV_SEND_INLINE = 8"

subsection \<open>Message buffers and burst items\<close>

text \<open>
  \<^verbatim>\<open>pkthdr_t\<close>: only the headroom bytes, which hold the Ethernet, IPv4 and UDP headers,
  are touched by the datapath.
\<close>

record pkthdr_t =
  headroom :: "uint8_t list"

text \<open>
  \<^verbatim>\<open>MsgBuffer\<close> is declared outside this file. What the datapath asks of it is kept as
  fields: the answer of \<^verbatim>\<open>is_valid()\<close>, \<^verbatim>\<open>data_size\<close>, \<^verbatim>\<open>buffer.lkey\<close>, the answer of
  \<^verbatim>\<open>get_pkt_size<kMaxDataPerPkt>(0)\<close>, and the packet headers that \<^verbatim>\<open>get_pkthdr_0()\<close>
  and \<^verbatim>\<open>get_pkthdr_n(k)\<close> point to (header \<open>k\<close> is element \<open>k\<close>).
\<close>

record MsgBuffer =
  is_valid :: bool
  data_size :: size_t
  lkey :: uint32_t
  get_pkt_size_0 :: size_t
  pkthdrs :: "pkthdr_t list"

text \<open>
  \<^verbatim>\<open>tx_burst_item_t\<close>: \<open>routing_info\<close> is the bytes the pointer refers to, \<open>msg_buffer\<close>
  the index of the referenced buffer in the store of message buffers.
\<close>

record tx_burst_item_t =
  routing_info :: "uint8_t list"
  msg_buffer :: nat
  pkt_index :: size_t
  drop_flag :: bool

subsection \<open>The hardware boundary\<close>

text \<open>
  Every call into the driver is appended to a log, with the descriptor memory as the
  driver sees it at the call. The driver's return code is a parameter of the model: an
  arbitrary function of the calls made so far, the current one last.
\<close>

datatype hw_call =
  Ibv_post_send nat "ibv_send_wr list" "(ibv_sge \<times> ibv_sge) list"
  | Ibv_poll_cq c_int
  | Recv_burst size_t
  | Ibv_post_recv_fast uint64_t c_int
  | Ibv_post_recv nat "ibv_recv_wr list"

datatype diagnostic =
  Post_send_failed c_int | Post_recv_fast_error c_int | Post_recv_normal_error c_int

datatype array_name =
  TxBurstArr | MsgBuffers | SendWr | SendSgl | PktHdrs | Headroom | RoutingInfo
  | RecvCqeArr | RecvWr

text \<open>
  How a call can fail to return. \<open>OutOfBounds\<close> and \<open>DivisionByZero\<close> are undefined
  behaviour. \<open>AssertionFailed\<close> (an \<^verbatim>\<open>assert\<close> of a build without \<^verbatim>\<open>NDEBUG\<close>) and
  \<open>ProcessExit\<close> (the \<^verbatim>\<open>fprintf(stderr, ...); exit(-1)\<close> pairs) end the process; they
  carry the driver calls made up to that point.
\<close>

datatype error =
  OutOfBounds array_name
  | DivisionByZero
  | AssertionFailed "hw_call list"
  | ProcessExit c_int diagnostic "hw_call list"

subsection \<open>Constants and state\<close>

text \<open>
  The constants of \<^verbatim>\<open>raw_transport.h\<close> and the helpers declared there are parameters:
  \<open>ndebug\<close> says whether \<^verbatim>\<open>assert\<close> is compiled away, \<open>get_signaled_flag\<close> acts on a
  part of the state the datapath does not otherwise read, \<open>get_cqe_cycle_delta\<close>
  compares two snapshots, \<open>driver\<close> is the return code of the hardware.
\<close>

record ('g, 'c) config =
  kDumb :: bool
  kTesting :: bool
  ndebug :: bool
  kPostlist :: size_t
  kMaxDataPerPkt :: size_t
  kMaxInline :: size_t
  MLX5_ETH_INLINE_HEADER_SIZE :: size_t
  sizeof_pkthdr_t :: size_t
  kNumRxRingEntries :: size_t
  kRecvCQDepth :: size_t
  kStridesPerWQE :: size_t
  kRQDepth :: size_t
  kRecvSlack :: size_t
  kMagicWrIDForFastRecv :: uint64_t
  get_signaled_flag :: "'g \<Rightarrow> uint32_t \<times> 'g"
  get_cqe_cycle_delta :: "'c \<Rightarrow> 'c \<Rightarrow> size_t"
  driver :: "hw_call list \<Rightarrow> c_int"

text \<open>
  The fields of \<^verbatim>\<open>RawTransport\<close> that the datapath uses, the message buffers it reaches
  through the burst items, and the log of driver calls.
\<close>

record ('g, 'c) RawTransport =
  send_wr :: "ibv_send_wr list"
  send_sgl :: "(ibv_sge \<times> ibv_sge) list"
  recv_wr :: "ibv_recv_wr list"
  recv_cqe_arr :: "'c list"
  cqe_idx :: size_t
  prev_snapshot :: 'c
  recv_backlog :: size_t
  recv_head :: size_t
  recvs_to_post :: size_t
  mp_sge_idx :: size_t
  sig_state :: 'g
  msg_buffers :: "MsgBuffer list"
  hw_log :: "hw_call list"

subsection \<open>Wire header layout\<close>

text \<open>
  Modelled from the spec: the header structs \<^verbatim>\<open>eth_hdr_t\<close>, \<^verbatim>\<open>ipv4_hdr_t\<close> and
  \<^verbatim>\<open>udp_hdr_t\<close> are declared outside this file. Their sizes are 14, 20 and 8 bytes, 42
  in all; the fields the datapath touches sit at the offsets of the IPv4 and UDP wire
  formats.
\<close>

definition sizeof_eth_hdr_t :: nat where
  "sizeof_eth_hdr_t = 14"

definition sizeof_ipv4_hdr_t :: nat where
  "sizeof_ipv4_hdr_t = 20"

definition kInetHdrsTotSize :: nat where
  "kInetHdrsTotSize = 42"

definition hdr_copy_sz :: nat where
  "hdr_copy_sz = kInetHdrsTotSize - 2"

definition off_ipv4_tot_len :: nat where
  "off_ipv4_tot_len = sizeof_eth_hdr_t + 2"

definition off_ipv4_check :: nat where
  "off_ipv4_check = sizeof_eth_hdr_t + 10"

definition off_ipv4_dst_ip :: nat where
  "off_ipv4_dst_ip = sizeof_eth_hdr_t + 16"

definition off_udp_len :: nat where
  "off_udp_len = sizeof_eth_hdr_t + sizeof_ipv4_hdr_t + 4"

definition off_udp_check :: nat where
  "off_udp_check = sizeof_eth_hdr_t + sizeof_ipv4_hdr_t + 6"

text \<open>
  \<^verbatim>\<open>htons\<close> gives the 16-bit value whose bytes in memory are in network order. The
  model keeps the two bytes as they lie in memory: the high byte first.
\<close>

definition htons :: "uint16_t \<Rightarrow> uint8_t \<times> uint8_t" where
  "htons v = (ucast (drop_bit 8 v), ucast v)"

definition store16 :: "uint8_t list \<Rightarrow> nat \<Rightarrow> uint8_t \<times> uint8_t \<Rightarrow> uint8_t list" where
  "store16 h off b = h[off := fst b, off + 1 := snd b]"

definition load16 :: "uint8_t list \<Rightarrow> nat \<Rightarrow> uint8_t \<times> uint8_t" where
  "load16 h off = (h ! off, h ! (off + 1))"

text \<open>The value a reader of the wire takes from two bytes in network order.\<close>

definition ntohs_val :: "uint8_t \<times> uint8_t \<Rightarrow> nat" where
  "ntohs_val b = 256 * unat (fst b) + unat (snd b)"

subsection \<open>\<^verbatim>\<open>tx_burst\<close>\<close>

text \<open>
  Lines 23 to 53: the scatter-gather entries of one item. The result is the index of
  the packet header used, the entry written to \<^verbatim>\<open>sgl[0]\<close>, the entry written to
  \<^verbatim>\<open>sgl[1]\<close> if one is written, whether \<^verbatim>\<open>IBV_SEND_INLINE\<close> is set, \<^verbatim>\<open>num_sge\<close>, and
  the local \<^verbatim>\<open>pkt_size\<close>.
\<close>

definition tx_fill_sgl ::
  "('g, 'c) config \<Rightarrow> tx_burst_item_t \<Rightarrow> MsgBuffer
    \<Rightarrow> nat \<times> ibv_sge \<times> ibv_sge option \<times> bool \<times> c_int \<times> size_t" where
  "tx_fill_sgl cfg item mb =
    (if pkt_index item = 0 then
       let sge0 = \<lparr>sge_addr = PktHdrAddr (msg_buffer item) 0,
                   sge_length = ucast (get_pkt_size_0 mb),
                   sge_lkey = lkey mb\<rparr>;
           inl = (kMaxInline cfg > 0 \<and>
                  (ucast (sge_length sge0) :: size_t)
                    \<le> kMaxInline cfg + MLX5_ETH_INLINE_HEADER_SIZE cfg);
           pkt_size = (ucast (sge_length sge0) :: size_t)
       in (0, sge0, None, inl, 1, pkt_size)
     else
       let sge0 = \<lparr>sge_addr = PktHdrAddr (msg_buffer item) (unat (pkt_index item)),
                   sge_length = ucast (sizeof_pkthdr_t cfg),
                   sge_lkey = lkey mb\<rparr>;
           offset = pkt_index item * kMaxDataPerPkt cfg;
           sge1 = \<lparr>sge_addr = BufAddr (msg_buffer item) offset,
                   sge_length = ucast (min (kMaxDataPerPkt cfg) (data_size mb - offset)),
                   sge_lkey = lkey mb\<rparr>;
           pkt_size = (ucast (sge_length sge0 + sge_length sge1) :: size_t)
       in (unat (pkt_index item), sge0, Some sge1, False, 2, pkt_size))"

text \<open>The value of the local \<^verbatim>\<open>pkt_size\<close> for an item.\<close>

definition tx_pkt_size :: "('g, 'c) config \<Rightarrow> tx_burst_item_t \<Rightarrow> MsgBuffer \<Rightarrow> size_t" where
  "tx_pkt_size cfg item mb =
    (case tx_fill_sgl cfg item mb of (k, sge0, sge1, inl, nsge, pkt_size) \<Rightarrow> pkt_size)"

text \<open>
  Lines 57 to 71: the routing template is copied over the first 40 bytes of the
  headroom, then the two length fields are patched. The header structs overlay bytes 0
  to 41 of the headroom, so a shorter headroom is out of bounds.
\<close>

definition tx_stamp ::
  "('g, 'c) config \<Rightarrow> tx_burst_item_t \<Rightarrow> size_t \<Rightarrow> hw_call list \<Rightarrow> pkthdr_t
    \<Rightarrow> error + pkthdr_t" where
  "tx_stamp cfg item pkt_size lg pkthdr =
    (if length (routing_info item) < hdr_copy_sz then Inl (OutOfBounds RoutingInfo)
     else if length (headroom pkthdr) < kInetHdrsTotSize then Inl (OutOfBounds Headroom)
     else
       let h1 = take hdr_copy_sz (routing_info item) @ drop hdr_copy_sz (headroom pkthdr)
       in if \<not> ndebug cfg \<and> load16 h1 off_ipv4_check \<noteq> (0, 0)
          then Inl (AssertionFailed lg)
          else
            let h2 = store16 h1 off_ipv4_tot_len
                       (htons (ucast (pkt_size - of_nat sizeof_eth_hdr_t)));
                h3 = (if kTesting cfg \<and> drop_flag item
                      then h2[off_ipv4_dst_ip := 0, off_ipv4_dst_ip + 1 := 0,
                              off_ipv4_dst_ip + 2 := 0, off_ipv4_dst_ip + 3 := 0]
                      else h2)
            in if \<not> ndebug cfg \<and> load16 h3 off_udp_check \<noteq> (0, 0)
               then Inl (AssertionFailed lg)
               else
                 Inr (pkthdr\<lparr>headroom :=
                   store16 h3 off_udp_len
                     (htons (ucast (pkt_size - of_nat sizeof_eth_hdr_t
                                     - of_nat sizeof_ipv4_hdr_t)))\<rparr>))"

text \<open>
  Lines 8 to 78: the body of the loop, for item \<open>i\<close>. Line 14 only forms the pointer to
  row \<open>i\<close> of \<^verbatim>\<open>send_sgl\<close>, which the asserts compare; the row is first written in lines
  28 and 42, after the asserts.
\<close>

definition tx_burst_iter ::
  "('g, 'c) config \<Rightarrow> tx_burst_item_t list \<Rightarrow> nat \<Rightarrow> ('g, 'c) RawTransport
    \<Rightarrow> error + ('g, 'c) RawTransport" where
  "tx_burst_iter cfg tx_burst_arr i s =
    (if length tx_burst_arr \<le> i then Inl (OutOfBounds TxBurstArr)
     else
       let item = tx_burst_arr ! i in
       if length (msg_buffers s) \<le> msg_buffer item then Inl (OutOfBounds MsgBuffers)
       else
         let mb = msg_buffers s ! msg_buffer item in
         if \<not> ndebug cfg \<and> \<not> is_valid mb then Inl (AssertionFailed (hw_log s))
         else if length (send_wr s) \<le> i then Inl (OutOfBounds SendWr)
         else
           let wr = send_wr s ! i
           in if \<not> ndebug cfg \<and>
                 \<not> (wr_next wr = Some (i + 1) \<and> opcode wr = IBV_WR_SEND \<and> sg_list wr = Some i)
              then Inl (AssertionFailed (hw_log s))
              else if length (send_sgl s) \<le> i then Inl (OutOfBounds SendSgl)
              else
                let sgl = send_sgl s ! i;
                    (flag, g) = get_signaled_flag cfg (sig_state s);
                    (k, sge0, sge1, inl, nsge, pkt_size) = tx_fill_sgl cfg item mb;
                    sgl' = (sge0, (case sge1 of None \<Rightarrow> snd sgl | Some e \<Rightarrow> e));
                    wr' = wr\<lparr>send_flags := (if inl then flag OR IBV_SEND_INLINE else flag),
                             num_sge := nsge\<rparr>
                in if length (pkthdrs mb) \<le> k then Inl (OutOfBounds PktHdrs)
                   else
                     (case tx_stamp cfg item pkt_size (hw_log s) (pkthdrs mb ! k) of
                        Inl e \<Rightarrow> Inl e
                      | Inr pkthdr \<Rightarrow>
                          Inr (s\<lparr>send_wr := (send_wr s)[i := wr'],
                                 send_sgl := (send_sgl s)[i := sgl'],
                                 sig_state := g,
                                 msg_buffers := (msg_buffers s)
                                   [msg_buffer item :=
                                      mb\<lparr>pkthdrs := (pkthdrs mb)[k := pkthdr]\<rparr>]\<rparr>)))"

text \<open>The loop of line 7, from index \<open>i\<close>, for \<open>n\<close> more items.\<close>

primrec tx_burst_loop ::
  "('g, 'c) config \<Rightarrow> tx_burst_item_t list \<Rightarrow> nat \<Rightarrow> nat \<Rightarrow> ('g, 'c) RawTransport
    \<Rightarrow> error + ('g, 'c) RawTransport" where
  "tx_burst_loop cfg tx_burst_arr i 0 s = Inr s"
| "tx_burst_loop cfg tx_burst_arr i (Suc n) s =
    (case tx_burst_iter cfg tx_burst_arr i s of
       Inl e \<Rightarrow> Inl e
     | Inr s' \<Rightarrow> tx_burst_loop cfg tx_burst_arr (Suc i) n s')"

text \<open>
  Lines 81 to 91. \<open>num_pkts - 1\<close> is computed on \<^verbatim>\<open>size_t\<close>, so it wraps for
  \<open>num_pkts = 0\<close>.
\<close>

definition tx_burst ::
  "('g, 'c) config \<Rightarrow> tx_burst_item_t list \<Rightarrow> size_t \<Rightarrow> ('g, 'c) RawTransport
    \<Rightarrow> error + ('g, 'c) RawTransport" where
  "tx_burst cfg tx_burst_arr num_pkts s =
    (case tx_burst_loop cfg tx_burst_arr 0 (unat num_pkts) s of
       Inl e \<Rightarrow> Inl e
     | Inr s1 \<Rightarrow>
         let last_i = unat (num_pkts - 1) in
         if length (send_wr s1) \<le> last_i then Inl (OutOfBounds SendWr)
         else
           let wrs = (send_wr s1)[last_i := (send_wr s1 ! last_i)\<lparr>wr_next := None\<rparr>];
               lg = hw_log s1 @ [Ibv_post_send 0 wrs (send_sgl s1)];
               ret = driver cfg lg
           in if \<not> ndebug cfg \<and> ret \<noteq> 0 then Inl (AssertionFailed lg)
              else if ret \<noteq> 0 then Inl (ProcessExit (- 1) (Post_send_failed ret) lg)
              else
                Inr (s1\<lparr>send_wr := wrs[last_i := (wrs ! last_i)\<lparr>wr_next := Some (unat num_pkts)\<rparr>],
                       hw_log := lg\<rparr>))"

subsection \<open>\<^verbatim>\<open>rx_burst\<close>\<close>

text \<open>
  Lines 107 to 118: the loop moves \<^verbatim>\<open>recv_head\<close> one slot at a time. The prefetch is a
  hint on an address that is only computed, and \<^verbatim>\<open>LOG_TRACE\<close> writes no state: neither
  appears.
\<close>

primrec rx_advance :: "('g, 'c) config \<Rightarrow> nat \<Rightarrow> size_t \<Rightarrow> error + size_t" where
  "rx_advance cfg 0 head = Inr head"
| "rx_advance cfg (Suc n) head =
    (if kNumRxRingEntries cfg = 0 then Inl DivisionByZero
     else rx_advance cfg n ((head + 1) mod kNumRxRingEntries cfg))"

text \<open>
  Lines 96 to 128. \<^verbatim>\<open>snapshot_cqe\<close> reads the completion entry that the NIC writes;
  \<open>recv_cqe_arr\<close> holds, for each entry, the snapshot such a read gives at the time of
  the call. The result is the returned count and the new state.
\<close>

definition rx_burst ::
  "('g, 'c) config \<Rightarrow> ('g, 'c) RawTransport \<Rightarrow> error + (size_t \<times> ('g, 'c) RawTransport)" where
  "rx_burst cfg s =
    (if kDumb cfg then
       if length (recv_cqe_arr s) \<le> unat (cqe_idx s) then Inl (OutOfBounds RecvCqeArr)
       else
         let cur_snapshot = recv_cqe_arr s ! unat (cqe_idx s);
             delta = get_cqe_cycle_delta cfg (prev_snapshot s) cur_snapshot
         in if delta = 0 \<or> delta \<ge> kNumRxRingEntries cfg then Inr (0, s)
            else
              let backlog = recv_backlog s + delta;
                  comps_clamped = (if backlog < kPostlist cfg then backlog else kPostlist cfg)
              in (case rx_advance cfg (unat comps_clamped) (recv_head s) of
                    Inl e \<Rightarrow> Inl e
                  | Inr head \<Rightarrow>
                      if kRecvCQDepth cfg = 0 then Inl DivisionByZero
                      else
                        Inr (comps_clamped,
                             s\<lparr>recv_backlog := backlog - comps_clamped,
                               recv_head := head,
                               cqe_idx := (cqe_idx s + 1) mod kRecvCQDepth cfg,
                               prev_snapshot := cur_snapshot\<rparr>))
     else
       let lg = hw_log s @ [Ibv_poll_cq (ucast (kPostlist cfg))];
           ret = driver cfg lg
       in if \<not> ndebug cfg \<and> sint ret < 0 then Inl (AssertionFailed lg)
          else Inr (scast ret, s\<lparr>hw_log := lg\<rparr>))"

subsection \<open>\<^verbatim>\<open>post_recvs\<close>\<close>

text \<open>
  Lines 165 to 190, the code after the fast path, on the state whose pending counter
  already includes this call's \<^verbatim>\<open>num_recvs\<close>.
\<close>

definition post_recvs_compat ::
  "('g, 'c) config \<Rightarrow> ('g, 'c) RawTransport \<Rightarrow> error + ('g, 'c) RawTransport" where
  "post_recvs_compat cfg s =
    (let first_wr_i = recv_head s;
         last_wr_i0 = first_wr_i + (recvs_to_post s - 1);
         last_wr_i = (if last_wr_i0 \<ge> kRQDepth cfg then last_wr_i0 - kRQDepth cfg
                      else last_wr_i0)
     in if length (recv_wr s) \<le> unat first_wr_i then Inl (OutOfBounds RecvWr)
        else if length (recv_wr s) \<le> unat last_wr_i then Inl (OutOfBounds RecvWr)
        else
          let temp_wr = recv_wr_next (recv_wr s ! unat last_wr_i);
              wrs = (recv_wr s)
                      [unat last_wr_i := (recv_wr s ! unat last_wr_i)\<lparr>recv_wr_next := None\<rparr>];
              lg = hw_log s @ [Ibv_post_recv (unat first_wr_i) wrs];
              ret = driver cfg lg
          in if ret \<noteq> 0 then Inl (ProcessExit (- 1) (Post_recv_normal_error ret) lg)
             else if kRQDepth cfg = 0 then Inl DivisionByZero
             else
               Inr (s\<lparr>recv_wr :=
                        wrs[unat last_wr_i := (wrs ! unat last_wr_i)\<lparr>recv_wr_next := temp_wr\<rparr>],
                      hw_log := lg,
                      recv_head := (last_wr_i + 1) mod kRQDepth cfg,
                      recvs_to_post := 0\<rparr>))"

text \<open>
  Lines 130 to 194. \<^verbatim>\<open>use_fast_recv\<close> is the local of line 144, which the source sets to
  \<^verbatim>\<open>true\<close>. The driver call of the striding branch takes the address of
  \<^verbatim>\<open>mp_recv_sge[mp_sge_idx]\<close>; the log keeps the index.
\<close>

definition post_recvs ::
  "('g, 'c) config \<Rightarrow> size_t \<Rightarrow> ('g, 'c) RawTransport \<Rightarrow> error + ('g, 'c) RawTransport" where
  "post_recvs cfg num_recvs s =
    (if \<not> ndebug cfg \<and> \<not> num_recvs \<le> kNumRxRingEntries cfg
     then Inl (AssertionFailed (hw_log s))
     else
       let s1 = s\<lparr>recvs_to_post := recvs_to_post s + num_recvs\<rparr> in
       if kDumb cfg then
         if recvs_to_post s1 < kStridesPerWQE cfg then Inr s1
         else
           let lg = hw_log s1 @ [Recv_burst (mp_sge_idx s1)];
               ret = driver cfg lg
           in if \<not> ndebug cfg \<and> ret \<noteq> 0 then Inl (AssertionFailed lg)
              else if kRQDepth cfg = 0 then Inl DivisionByZero
              else
                Inr (s1\<lparr>hw_log := lg,
                        mp_sge_idx := (mp_sge_idx s1 + 1) mod kRQDepth cfg,
                        recvs_to_post := recvs_to_post s1 - kStridesPerWQE cfg\<rparr>)
       else
         if recvs_to_post s1 < kRecvSlack cfg then Inr s1
         else
           let use_fast_recv = True in
           if use_fast_recv then
             let lg = hw_log s1 @
                   [Ibv_post_recv_fast (kMagicWrIDForFastRecv cfg) (ucast (recvs_to_post s1))];
                 ret = driver cfg lg
             in if ret \<noteq> 0 then Inl (ProcessExit (- 1) (Post_recv_fast_error ret) lg)
                else Inr (s1\<lparr>hw_log := lg, recvs_to_post := 0\<rparr>)
           else post_recvs_compat cfg s1)"

subsection \<open>Predicates of the statements\<close>

text \<open>
  The send chain is intact when every descriptor but the last of the array points to
  its successor.
\<close>

definition chain_intact :: "ibv_send_wr list \<Rightarrow> bool" where
  "chain_intact wrs = list_all (\<lambda>i. wr_next (wrs ! i) = Some (Suc i)) [0..<length wrs - 1]"

text \<open>
  Two stores of message buffers that differ at most in the bytes of their packet
  headers.
\<close>

definition same_buffers :: "MsgBuffer list \<Rightarrow> MsgBuffer list \<Rightarrow> bool" where
  "same_buffers ms ms' =
    (length ms' = length ms \<and>
     (\<forall>r < length ms.
        is_valid (ms' ! r) = is_valid (ms ! r) \<and> data_size (ms' ! r) = data_size (ms ! r) \<and>
        lkey (ms' ! r) = lkey (ms ! r) \<and> get_pkt_size_0 (ms' ! r) = get_pkt_size_0 (ms ! r) \<and>
        length (pkthdrs (ms' ! r)) = length (pkthdrs (ms ! r))))"

text \<open>
  The two length fields of a headroom hold, in network byte order, the IPv4 total
  length and the UDP length of a packet of \<open>pkt_size\<close> bytes.
\<close>

definition lengths_stamped :: "size_t \<Rightarrow> uint8_t list \<Rightarrow> bool" where
  "lengths_stamped pkt_size h =
    (load16 h off_ipv4_tot_len = htons (ucast (pkt_size - 14)) \<and>
     load16 h off_udp_len = htons (ucast (pkt_size - 14 - 20)))"

text \<open>
  The list a driver reads from a posted descriptor: it follows \<open>next\<close> from the first
  descriptor until \<^verbatim>\<open>nullptr\<close>; \<open>fuel\<close> bounds the walk.
\<close>

fun send_chain :: "nat \<Rightarrow> ibv_send_wr list \<Rightarrow> nat \<Rightarrow> nat list" where
  "send_chain 0 wrs i = []"
| "send_chain (Suc fuel) wrs i =
    (if length wrs \<le> i then []
     else i # (case wr_next (wrs ! i) of None \<Rightarrow> [] | Some j \<Rightarrow> send_chain fuel wrs j))"

subsection \<open>A concrete transport\<close>

text \<open>
  Modelled from the spec: \<^verbatim>\<open>get_cqe_cycle_delta\<close> is declared outside this file. With
  snapshots read as counter values and ring size \<open>R\<close>, the spec gives the delta as
  \<open>(S1 - S0 + R) mod R\<close>.
\<close>

definition cqe_cycle_delta_spec :: "size_t \<Rightarrow> size_t \<Rightarrow> size_t \<Rightarrow> size_t" where
  "cqe_cycle_delta_spec R S0 S1 = (S1 - S0 + R) mod R"

text \<open>
  Small constants, for evaluating the functions: a batch of at most 2, a receive ring
  of 8 slots, headers of 56 bytes and 44 data bytes per packet, so that a message of 48
  bytes has a first packet of 100 bytes and a second one of 60.
\<close>

definition example_cfg :: "(nat, size_t) config" where
  "example_cfg =
    \<lparr>kDumb = True, kTesting = True, ndebug = False,
     kPostlist = 2, kMaxDataPerPkt = 44, kMaxInline = 60,
     MLX5_ETH_INLINE_HEADER_SIZE = 18, sizeof_pkthdr_t = 56,
     kNumRxRingEntries = 8, kRecvCQDepth = 2, kStridesPerWQE = 2, kRQDepth = 4,
     kRecvSlack = 2, kMagicWrIDForFastRecv = 3185,
     get_signaled_flag = (\<lambda>nb_tx. (if nb_tx mod 2 = 0 then 2 else 0, Suc nb_tx)),
     get_cqe_cycle_delta = cqe_cycle_delta_spec 8,
     driver = (\<lambda>lg. 0)\<rparr>"

definition example_send_wr :: "nat \<Rightarrow> ibv_send_wr" where
  "example_send_wr i =
    \<lparr>wr_next = Some (Suc i), opcode = IBV_WR_SEND, sg_list = Some i, num_sge = 0,
     send_flags = 0\<rparr>"

definition example_sge :: ibv_sge where
  "example_sge = \<lparr>sge_addr = NullAddr, sge_length = 0, sge_lkey = 0\<rparr>"

definition example_msg_buffer :: MsgBuffer where
  "example_msg_buffer =
    \<lparr>is_valid = True, data_size = 48, lkey = 7, get_pkt_size_0 = 100,
     pkthdrs = [\<lparr>headroom = replicate 42 0\<rparr>, \<lparr>headroom = replicate 42 0\<rparr>]\<rparr>"

definition example_transport :: "(nat, size_t) RawTransport" where
  "example_transport =
    \<lparr>send_wr = [example_send_wr 0, example_send_wr 1,
                (example_send_wr 2)\<lparr>wr_next := None\<rparr>],
     send_sgl = [(example_sge, example_sge), (example_sge, example_sge)],
     recv_wr = [\<lparr>recv_wr_next = Some 1\<rparr>, \<lparr>recv_wr_next = Some 2\<rparr>,
                \<lparr>recv_wr_next = Some 3\<rparr>, \<lparr>recv_wr_next = Some 0\<rparr>],
     recv_cqe_arr = [0, 7],
     cqe_idx = 1,
     prev_snapshot = 5,
     recv_backlog = 1,
     recv_head = 7,
     recvs_to_post = 0,
     mp_sge_idx = 1,
     sig_state = 0,
     msg_buffers = [example_msg_buffer],
     hw_log = []\<rparr>"

definition example_items :: "tx_burst_item_t list" where
  "example_items =
    [\<lparr>routing_info = replicate 40 0, msg_buffer = 0, pkt_index = 0, drop_flag = False\<rparr>,
     \<lparr>routing_info = replicate 40 0, msg_buffer = 0, pkt_index = 1, drop_flag = False\<rparr>]"

text \<open>
  The transport after the loop of \<^verbatim>\<open>tx_burst\<close> has filled the descriptors of the two
  example items, the descriptors as they are posted, and the transport after the call.
\<close>

definition example_filled :: "(nat, size_t) RawTransport" where
  "example_filled = example_transport
    \<lparr>send_wr := [(example_send_wr 0)\<lparr>num_sge := 1, send_flags := 2\<rparr>,
                 (example_send_wr 1)\<lparr>num_sge := 2\<rparr>,
                 (example_send_wr 2)\<lparr>wr_next := None\<rparr>],
     send_sgl := [(\<lparr>sge_addr = PktHdrAddr 0 0, sge_length = 100, sge_lkey = 7\<rparr>, example_sge),
                  (\<lparr>sge_addr = PktHdrAddr 0 1, sge_length = 56, sge_lkey = 7\<rparr>,
                   \<lparr>sge_addr = BufAddr 0 44, sge_length = 4, sge_lkey = 7\<rparr>)],
     sig_state := 2,
     msg_buffers := [example_msg_buffer
        \<lparr>pkthdrs := [\<lparr>headroom = (replicate 42 0)[17 := 86, 39 := 66]\<rparr>,
                     \<lparr>headroom = (replicate 42 0)[17 := 46, 39 := 26]\<rparr>]\<rparr>]\<rparr>"

definition example_post_send :: hw_call where
  "example_post_send =
    Ibv_post_send 0
      ((send_wr example_filled)[1 := (send_wr example_filled ! 1)\<lparr>wr_next := None\<rparr>])
      (send_sgl example_filled)"

definition example_sent :: "(nat, size_t) RawTransport" where
  "example_sent = example_filled\<lparr>hw_log := [example_post_send]\<rparr>"

section \<open>Properties\<close>

subsection \<open>The example, and the head of the receive ring\<close>

lemma example_cfg_simps:
  "kDumb example_cfg" "kTesting example_cfg" "\<not> ndebug example_cfg"
  "kPostlist example_cfg = 2" "kMaxDataPerPkt example_cfg = 44" "kMaxInline example_cfg = 60"
  "MLX5_ETH_INLINE_HEADER_SIZE example_cfg = 18" "sizeof_pkthdr_t example_cfg = 56"
  "kNumRxRingEntries example_cfg = 8" "kRecvCQDepth example_cfg = 2"
  "kStridesPerWQE example_cfg = 2" "kRQDepth example_cfg = 4" "kRecvSlack example_cfg = 2"
  "kMagicWrIDForFastRecv example_cfg = 3185"
  "get_signaled_flag example_cfg nb_tx = (if nb_tx mod 2 = 0 then 2 else 0, Suc nb_tx)"
  "get_cqe_cycle_delta example_cfg S0 S1 = (S1 - S0 + 8) mod 8"
  "driver example_cfg lg = 0"
  by (simp_all add: example_cfg_def cqe_cycle_delta_spec_def)

lemma rx_advance_head:
  "head < kNumRxRingEntries cfg \<Longrightarrow>
   \<exists>h. rx_advance cfg n head = Inr h \<and> h < kNumRxRingEntries cfg \<and>
       unat h = (unat head + n) mod unat (kNumRxRingEntries cfg)"
proof (induction n arbitrary: head)
  case 0
  then show ?case by (simp add: word_less_nat_alt)
next
  case (Suc n)
  let ?R = "kNumRxRingEntries cfg"
  from Suc.prems have R0: "?R \<noteq> 0" by auto
  have lt: "(head + 1) mod ?R < ?R"
    using R0 by (simp add: word_mod_less_divisor word_neq_0_conv)
  have "unat head + 1 < 2 ^ 64"
    using Suc.prems unsigned_less [of ?R, where 'a = nat] by (simp add: word_less_nat_alt)
  then have u1: "unat (head + 1) = unat head + 1"
    by (simp add: unat_word_ariths)
  have u: "unat ((head + 1) mod ?R) = (unat head + 1) mod unat ?R"
    by (simp add: unat_mod u1)
  from Suc.IH [OF lt] obtain h where
    h: "rx_advance cfg n ((head + 1) mod ?R) = Inr h" "h < ?R"
       "unat h = (unat ((head + 1) mod ?R) + n) mod unat ?R" by blast
  have "unat h = (unat head + Suc n) mod unat ?R"
    using h(3) u by (simp add: mod_add_left_eq)
  with h R0 show ?case by simp
qed


lemma example_tx_burst:
  "tx_burst example_cfg example_items 2 example_transport = Inr example_sent"
  by code_simp

subsection \<open>The loop of \<^verbatim>\<open>tx_burst\<close>\<close>

lemma tx_burst_iter_Inr:
  assumes run: "tx_burst_iter cfg arr i s = Inr s'"
  obtains fl g k sge0 sge1 inl nsge pkt_size pkthdr where
    "i < length arr" "msg_buffer (arr ! i) < length (msg_buffers s)"
    "i < length (send_wr s)" "i < length (send_sgl s)"
    "\<not> ndebug cfg \<Longrightarrow> is_valid (msg_buffers s ! msg_buffer (arr ! i)) \<and>
         wr_next (send_wr s ! i) = Some (i + 1) \<and> opcode (send_wr s ! i) = IBV_WR_SEND \<and>
         sg_list (send_wr s ! i) = Some i"
    "tx_fill_sgl cfg (arr ! i) (msg_buffers s ! msg_buffer (arr ! i))
      = (k, sge0, sge1, inl, nsge, pkt_size)"
    "k < length (pkthdrs (msg_buffers s ! msg_buffer (arr ! i)))"
    "tx_stamp cfg (arr ! i) pkt_size (hw_log s)
       (pkthdrs (msg_buffers s ! msg_buffer (arr ! i)) ! k) = Inr pkthdr"
    "s' = s\<lparr>send_wr := (send_wr s)[i := (send_wr s ! i)\<lparr>send_flags := fl, num_sge := nsge\<rparr>],
           send_sgl := (send_sgl s)
              [i := (sge0, (case sge1 of None \<Rightarrow> snd (send_sgl s ! i) | Some e \<Rightarrow> e))],
           sig_state := g,
           msg_buffers := (msg_buffers s)
              [msg_buffer (arr ! i) :=
                 (msg_buffers s ! msg_buffer (arr ! i))
                   \<lparr>pkthdrs := (pkthdrs (msg_buffers s ! msg_buffer (arr ! i)))[k := pkthdr]\<rparr>]\<rparr>"
proof -
  obtain flag g where fg: "get_signaled_flag cfg (sig_state s) = (flag, g)"
    by (cases "get_signaled_flag cfg (sig_state s)")
  obtain k sge0 sge1 inl nsge pkt_size where
    fill: "tx_fill_sgl cfg (arr ! i) (msg_buffers s ! msg_buffer (arr ! i))
             = (k, sge0, sge1, inl, nsge, pkt_size)"
    by (cases "tx_fill_sgl cfg (arr ! i) (msg_buffers s ! msg_buffer (arr ! i))")
  from run have b: "i < length arr" "msg_buffer (arr ! i) < length (msg_buffers s)"
      "i < length (send_wr s)" "i < length (send_sgl s)"
    unfolding tx_burst_iter_def by (simp_all add: Let_def split: if_splits)
  from run b have a: "\<not> ndebug cfg \<Longrightarrow> is_valid (msg_buffers s ! msg_buffer (arr ! i)) \<and>
         wr_next (send_wr s ! i) = Some (i + 1) \<and> opcode (send_wr s ! i) = IBV_WR_SEND \<and>
         sg_list (send_wr s ! i) = Some i"
    unfolding tx_burst_iter_def by (simp add: Let_def split: if_splits)
  from run b a fg fill have kb: "k < length (pkthdrs (msg_buffers s ! msg_buffer (arr ! i)))"
    unfolding tx_burst_iter_def by (simp add: Let_def split: if_splits)
  from run b a fg fill kb obtain pkthdr where
    st: "tx_stamp cfg (arr ! i) pkt_size (hw_log s)
           (pkthdrs (msg_buffers s ! msg_buffer (arr ! i)) ! k) = Inr pkthdr"
    unfolding tx_burst_iter_def by (auto simp add: Let_def split: if_splits sum.splits)
  from run b a fg fill kb st have
    "s' = s\<lparr>send_wr := (send_wr s)
              [i := (send_wr s ! i)\<lparr>send_flags := (if inl then flag OR IBV_SEND_INLINE else flag),
                                    num_sge := nsge\<rparr>],
           send_sgl := (send_sgl s)
              [i := (sge0, (case sge1 of None \<Rightarrow> snd (send_sgl s ! i) | Some e \<Rightarrow> e))],
           sig_state := g,
           msg_buffers := (msg_buffers s)
              [msg_buffer (arr ! i) :=
                 (msg_buffers s ! msg_buffer (arr ! i))
                   \<lparr>pkthdrs := (pkthdrs (msg_buffers s ! msg_buffer (arr ! i)))[k := pkthdr]\<rparr>]\<rparr>"
    unfolding tx_burst_iter_def by (auto simp add: Let_def split: if_splits)
  with b a fill kb st that show thesis
    by blast
qed


lemma same_buffers_refl: "same_buffers ms ms"
  by (simp add: same_buffers_def)

lemma same_buffers_trans:
  "same_buffers ms ms' \<Longrightarrow> same_buffers ms' ms'' \<Longrightarrow> same_buffers ms ms''"
  by (simp add: same_buffers_def)

lemma same_buffers_update:
  "r < length ms \<Longrightarrow> length hs = length (pkthdrs (ms ! r)) \<Longrightarrow>
   same_buffers ms (ms[r := (ms ! r)\<lparr>pkthdrs := hs\<rparr>])"
  by (simp add: same_buffers_def nth_list_update)

lemma map_wr_next_update:
  "i < length wrs \<Longrightarrow> wr_next w = wr_next (wrs ! i) \<Longrightarrow>
   map wr_next (wrs[i := w]) = map wr_next wrs"
  by (simp add: map_update list_update_same_conv)

lemma tx_burst_iter_frame:
  assumes run: "tx_burst_iter cfg arr i s = Inr s'"
  shows "hw_log s' = hw_log s"
    and "length (send_wr s') = length (send_wr s)"
    and "length (send_sgl s') = length (send_sgl s)"
    and "map wr_next (send_wr s') = map wr_next (send_wr s)"
    and "same_buffers (msg_buffers s) (msg_buffers s')"
    and "j \<noteq> i \<Longrightarrow> send_wr s' ! j = send_wr s ! j"
    and "j \<noteq> i \<Longrightarrow> send_sgl s' ! j = send_sgl s ! j"
    and "i < length arr" and "i < length (send_wr s)" and "i < length (send_sgl s)"
proof -
  from run obtain fl g k sge0 sge1 inl nsge pkt_size pkthdr where
    b: "i < length arr" "msg_buffer (arr ! i) < length (msg_buffers s)"
       "i < length (send_wr s)" "i < length (send_sgl s)"
    and s': "s' = s\<lparr>send_wr := (send_wr s)[i := (send_wr s ! i)\<lparr>send_flags := fl, num_sge := nsge\<rparr>],
           send_sgl := (send_sgl s)
              [i := (sge0, (case sge1 of None \<Rightarrow> snd (send_sgl s ! i) | Some e \<Rightarrow> e))],
           sig_state := g,
           msg_buffers := (msg_buffers s)
              [msg_buffer (arr ! i) :=
                 (msg_buffers s ! msg_buffer (arr ! i))
                   \<lparr>pkthdrs := (pkthdrs (msg_buffers s ! msg_buffer (arr ! i)))[k := pkthdr]\<rparr>]\<rparr>"
    by (rule tx_burst_iter_Inr)
  show "hw_log s' = hw_log s" "length (send_wr s') = length (send_wr s)"
    "length (send_sgl s') = length (send_sgl s)"
    "i < length arr" "i < length (send_wr s)" "i < length (send_sgl s)"
    using b by (simp_all add: s')
  show "map wr_next (send_wr s') = map wr_next (send_wr s)"
    using b by (simp add: s' map_wr_next_update)
  show "same_buffers (msg_buffers s) (msg_buffers s')"
    using b by (simp add: s' same_buffers_update)
  show "j \<noteq> i \<Longrightarrow> send_wr s' ! j = send_wr s ! j"
    by (simp add: s')
  show "j \<noteq> i \<Longrightarrow> send_sgl s' ! j = send_sgl s ! j"
    by (simp add: s')
qed

lemma tx_burst_loop_frame:
  "tx_burst_loop cfg arr i n s = Inr s' \<Longrightarrow>
   hw_log s' = hw_log s \<and> length (send_wr s') = length (send_wr s) \<and>
   length (send_sgl s') = length (send_sgl s) \<and>
   map wr_next (send_wr s') = map wr_next (send_wr s) \<and>
   same_buffers (msg_buffers s) (msg_buffers s') \<and>
   (\<forall>j < i. send_wr s' ! j = send_wr s ! j \<and> send_sgl s' ! j = send_sgl s ! j) \<and>
   (\<forall>j. i \<le> j \<and> j < i + n \<longrightarrow>
      j < length arr \<and> j < length (send_wr s) \<and> j < length (send_sgl s))"
proof (induction n arbitrary: i s)
  case 0
  then show ?case by (simp add: same_buffers_refl)
next
  case (Suc n)
  from Suc.prems obtain s1 where
    it: "tx_burst_iter cfg arr i s = Inr s1" and
    rest: "tx_burst_loop cfg arr (Suc i) n s1 = Inr s'"
    by (auto split: sum.splits)
  note f = tx_burst_iter_frame [OF it]
  note ih = Suc.IH [OF rest]
  have "\<forall>j < i. send_wr s' ! j = send_wr s ! j \<and> send_sgl s' ! j = send_sgl s ! j"
    using ih f(6,7) by simp
  moreover have "\<forall>j. i \<le> j \<and> j < i + Suc n \<longrightarrow>
      j < length arr \<and> j < length (send_wr s) \<and> j < length (send_sgl s)"
  proof (intro allI impI)
    fix j assume j: "i \<le> j \<and> j < i + Suc n"
    show "j < length arr \<and> j < length (send_wr s) \<and> j < length (send_sgl s)"
    proof (cases "j = i")
      case True
      then show ?thesis using f(8,9,10) by simp
    next
      case False
      with j have "Suc i \<le> j \<and> j < Suc i + n" by simp
      with ih f(2,3) show ?thesis by simp
    qed
  qed
  ultimately show ?case
    using ih f(1,2,3,4,5) by (auto intro: same_buffers_trans)
qed


lemma chain_intact_iff:
  "chain_intact wrs \<longleftrightarrow> (\<forall>i. Suc i < length wrs \<longrightarrow> map wr_next wrs ! i = Some (Suc i))"
  by (auto simp add: chain_intact_def list_all_iff)

lemma chain_intact_cong:
  assumes "map wr_next wrs' = map wr_next wrs"
  shows "chain_intact wrs' = chain_intact wrs"
proof -
  have "length wrs' = length wrs"
    using assms by (rule map_eq_imp_length_eq)
  then show ?thesis
    by (simp add: chain_intact_iff assms)
qed

lemma send_chain_upto:
  "\<lbrakk>\<forall>j. i \<le> j \<and> j < m \<longrightarrow> wr_next (wrs ! j) = Some (Suc j); wr_next (wrs ! m) = None;
    m < length wrs; i \<le> m; m - i < fuel\<rbrakk>
   \<Longrightarrow> send_chain fuel wrs i = [i..<Suc m]"
proof (induction fuel arbitrary: i)
  case 0
  then show ?case by simp
next
  case (Suc fuel)
  show ?case
  proof (cases "i = m")
    case True
    with Suc.prems show ?thesis by simp
  next
    case False
    with Suc.prems have nxt: "wr_next (wrs ! i) = Some (Suc i)" and le: "Suc i \<le> m"
      by simp_all
    have "send_chain fuel wrs (Suc i) = [Suc i..<Suc m]"
      using Suc.prems le by (intro Suc.IH) auto
    with Suc.prems nxt le show ?thesis
      by (simp add: upt_conv_Cons)
  qed
qed

lemma tx_burst_Inr:
  assumes run: "tx_burst cfg arr n s = Inr s'"
  obtains s1 wrs where
    "tx_burst_loop cfg arr 0 (unat n) s = Inr s1"
    "unat (n - 1) < length (send_wr s1)"
    "wrs = (send_wr s1)[unat (n - 1) := (send_wr s1 ! unat (n - 1))\<lparr>wr_next := None\<rparr>]"
    "driver cfg (hw_log s1 @ [Ibv_post_send 0 wrs (send_sgl s1)]) = 0"
    "s' = s1\<lparr>send_wr := wrs[unat (n - 1) := (wrs ! unat (n - 1))\<lparr>wr_next := Some (unat n)\<rparr>],
            hw_log := hw_log s1 @ [Ibv_post_send 0 wrs (send_sgl s1)]\<rparr>"
  using run unfolding tx_burst_def
  by (auto simp add: Let_def split: sum.splits if_splits)

lemma unat_pred: "1 \<le> n \<Longrightarrow> unat (n - 1) = unat n - 1" for n :: size_t
  by (simp add: unat_sub)

lemma tx_stamp_Inl:
  "tx_stamp cfg item pkt_size lg pkthdr = Inl e \<Longrightarrow>
   e = OutOfBounds RoutingInfo \<or> e = OutOfBounds Headroom \<or> e = AssertionFailed lg"
  unfolding tx_stamp_def by (auto simp add: Let_def split: if_splits)

lemma tx_burst_iter_no_oob:
  assumes "i < length (send_wr s)" and "i < length (send_sgl s)"
  shows "tx_burst_iter cfg arr i s \<noteq> Inl (OutOfBounds SendWr) \<and>
         tx_burst_iter cfg arr i s \<noteq> Inl (OutOfBounds SendSgl)"
  using assms unfolding tx_burst_iter_def
  by (auto simp add: Let_def split: if_splits prod.splits sum.splits dest: tx_stamp_Inl)

lemma tx_burst_loop_no_oob:
  "i + n \<le> length (send_wr s) \<Longrightarrow> i + n \<le> length (send_sgl s) \<Longrightarrow>
   tx_burst_loop cfg arr i n s \<noteq> Inl (OutOfBounds SendWr) \<and>
   tx_burst_loop cfg arr i n s \<noteq> Inl (OutOfBounds SendSgl)"
proof (induction n arbitrary: i s)
  case 0
  then show ?case by simp
next
  case (Suc n)
  have i: "i < length (send_wr s)" "i < length (send_sgl s)"
    using Suc.prems by simp_all
  show ?case
  proof (cases "tx_burst_iter cfg arr i s")
    case (Inl e)
    with tx_burst_iter_no_oob [OF i, of cfg arr] show ?thesis by simp
  next
    case (Inr s1)
    from tx_burst_iter_frame(2,3) [OF Inr] Suc.prems
    have "Suc i + n \<le> length (send_wr s1)" "Suc i + n \<le> length (send_sgl s1)"
      by simp_all
    from Suc.IH [OF this] Inr show ?thesis by simp
  qed
qed


subsection \<open>Rows and headers written by the loop\<close>

lemma tx_fill_sgl_same:
  assumes "same_buffers ms ms'" and "r < length ms"
  shows "tx_fill_sgl cfg item (ms' ! r) = tx_fill_sgl cfg item (ms ! r)"
  using assms by (simp add: same_buffers_def tx_fill_sgl_def)

lemma tx_fill_sgl_index:
  "tx_fill_sgl cfg item mb = (k, sge0, sge1, inl, nsge, pkt_size) \<Longrightarrow>
   k = unat (pkt_index item)"
  by (auto simp add: tx_fill_sgl_def Let_def split: if_splits)

lemma tx_pkt_size_index:
  "pkt_index item' = pkt_index item \<Longrightarrow> tx_pkt_size cfg item' mb = tx_pkt_size cfg item mb"
  by (simp add: tx_pkt_size_def tx_fill_sgl_def Let_def)

lemma tx_pkt_size_fill:
  "tx_fill_sgl cfg item mb = (k, sge0, sge1, inl, nsge, pkt_size) \<Longrightarrow>
   tx_pkt_size cfg item mb = pkt_size"
  by (simp add: tx_pkt_size_def)

lemma tx_burst_iter_row:
  assumes run: "tx_burst_iter cfg arr i s = Inr s'"
    and same: "same_buffers ms0 (msg_buffers s)"
    and fill: "tx_fill_sgl cfg (arr ! i) (ms0 ! msg_buffer (arr ! i))
                 = (k, sge0, sge1, inl, nsge, pkt_size)"
  shows "num_sge (send_wr s' ! i) = nsge \<and> fst (send_sgl s' ! i) = sge0 \<and>
         (\<forall>e. sge1 = Some e \<longrightarrow> snd (send_sgl s' ! i) = e)"
proof -
  from run obtain fl g k' sge0' sge1' inl' nsge' pkt_size' pkthdr where
    b: "msg_buffer (arr ! i) < length (msg_buffers s)"
       "i < length (send_wr s)" "i < length (send_sgl s)"
    and fill': "tx_fill_sgl cfg (arr ! i) (msg_buffers s ! msg_buffer (arr ! i))
                 = (k', sge0', sge1', inl', nsge', pkt_size')"
    and s': "s' = s\<lparr>send_wr := (send_wr s)[i := (send_wr s ! i)\<lparr>send_flags := fl, num_sge := nsge'\<rparr>],
           send_sgl := (send_sgl s)
              [i := (sge0', (case sge1' of None \<Rightarrow> snd (send_sgl s ! i) | Some e \<Rightarrow> e))],
           sig_state := g,
           msg_buffers := (msg_buffers s)
              [msg_buffer (arr ! i) :=
                 (msg_buffers s ! msg_buffer (arr ! i))
                   \<lparr>pkthdrs := (pkthdrs (msg_buffers s ! msg_buffer (arr ! i)))[k' := pkthdr]\<rparr>]\<rparr>"
    by (rule tx_burst_iter_Inr)
  have "msg_buffer (arr ! i) < length ms0"
    using b same by (simp add: same_buffers_def)
  from tx_fill_sgl_same [OF same this, of cfg "arr ! i"] fill fill'
  have "sge0' = sge0" "sge1' = sge1" "nsge' = nsge"
    by simp_all
  with b show ?thesis
    by (simp add: s')
qed

lemma tx_burst_loop_row:
  "\<lbrakk>tx_burst_loop cfg arr i n s = Inr s'; same_buffers ms0 (msg_buffers s); i \<le> j; j < i + n;
    tx_fill_sgl cfg (arr ! j) (ms0 ! msg_buffer (arr ! j)) = (k, sge0, sge1, inl, nsge, pkt_size)\<rbrakk>
   \<Longrightarrow> num_sge (send_wr s' ! j) = nsge \<and> fst (send_sgl s' ! j) = sge0 \<and>
       (\<forall>e. sge1 = Some e \<longrightarrow> snd (send_sgl s' ! j) = e)"
proof (induction n arbitrary: i s)
  case 0
  then show ?case by simp
next
  case (Suc n)
  from Suc.prems(1) obtain s1 where
    it: "tx_burst_iter cfg arr i s = Inr s1" and
    rest: "tx_burst_loop cfg arr (Suc i) n s1 = Inr s'"
    by (auto split: sum.splits)
  have same1: "same_buffers ms0 (msg_buffers s1)"
    using Suc.prems(2) tx_burst_iter_frame(5) [OF it] by (rule same_buffers_trans)
  show ?case
  proof (cases "j = i")
    case True
    from tx_burst_loop_frame [OF rest] True
    have "send_wr s' ! j = send_wr s1 ! i" "send_sgl s' ! j = send_sgl s1 ! i"
      by simp_all
    with tx_burst_iter_row [OF it Suc.prems(2)] Suc.prems(5) True show ?thesis
      by simp
  next
    case False
    with Suc.prems have "Suc i \<le> j" "j < Suc i + n"
      by simp_all
    from Suc.IH [OF rest same1 this Suc.prems(5)] show ?thesis .
  qed
qed

lemma unat_ucast_mod:
  "unat (ucast x :: 'b::len word) = unat x mod 2 ^ LENGTH('b)" for x :: "'a::len word"
  by (simp add: unsigned_ucast_eq take_bit_eq_mod)

lemma unat_ucast_64_32: "unat x < 2 ^ 32 \<Longrightarrow> unat (ucast x :: uint32_t) = unat x"
  for x :: size_t
  by (simp add: unat_ucast_mod)

lemma unat_ucast_32_64: "unat (ucast y :: size_t) = unat y" for y :: uint32_t
proof -
  have "unat y < 2 ^ 32"
    using unsigned_less [of y, where 'a = nat] by simp
  then have "unat y < 2 ^ 64"
    by simp
  then show ?thesis
    by (simp add: unat_ucast_mod)
qed

lemma unat_min: "unat (min a b) = min (unat a) (unat b)" for a b :: "'a::len word"
  by (simp add: min_def word_le_nat_alt)

lemma ntohs_htons: "ntohs_val (htons v) = unat v"
proof -
  have lt: "unat v < 65536"
    using unsigned_less [of v, where 'a = nat] by simp
  have small: "unat v div 256 < 256"
    using lt by simp
  have "unat (drop_bit 8 v) = unat v div 256"
    by (simp add: drop_bit_eq_div unat_div)
  then have hi: "unat (ucast (drop_bit 8 v) :: uint8_t) = unat v div 256"
    using small by (simp only: unat_ucast_mod) simp
  have lo: "unat (ucast v :: uint8_t) = unat v mod 256"
    by (simp add: unat_ucast_mod)
  show ?thesis
    by (simp add: ntohs_val_def htons_def hi lo)
qed


lemma load16_store16_same:
  "off + 1 < length h \<Longrightarrow> load16 (store16 h off b) off = b"
  by (simp add: load16_def store16_def)

lemma load16_store16_other:
  "off' + 1 < off \<or> off + 1 < off' \<Longrightarrow> load16 (store16 h off' b) off = load16 h off"
  by (auto simp add: load16_def store16_def)

lemma length_store16: "length (store16 h off b) = length h"
  by (simp add: store16_def)

lemma tx_stamp_Inr:
  assumes "tx_stamp cfg item pkt_size lg pkthdr = Inr pkthdr'"
  shows "lengths_stamped pkt_size (headroom pkthdr')"
proof -
  from assms have len: "kInetHdrsTotSize \<le> length (headroom pkthdr)"
    "hdr_copy_sz \<le> length (routing_info item)"
    unfolding tx_stamp_def by (simp_all add: Let_def split: if_splits)
  define h1 where "h1 = take hdr_copy_sz (routing_info item) @ drop hdr_copy_sz (headroom pkthdr)"
  define h2 where "h2 = store16 h1 off_ipv4_tot_len (htons (ucast (pkt_size - 14)))"
  define h3 where "h3 = (if kTesting cfg \<and> drop_flag item
                      then h2[off_ipv4_dst_ip := 0, off_ipv4_dst_ip + 1 := 0,
                              off_ipv4_dst_ip + 2 := 0, off_ipv4_dst_ip + 3 := 0]
                      else h2)"
  have l1: "length h1 = length (headroom pkthdr)"
    using len by (simp add: h1_def kInetHdrsTotSize_def hdr_copy_sz_def)
  have l3: "length h3 = length (headroom pkthdr)"
    by (simp add: h3_def h2_def length_store16 l1)
  have out: "headroom pkthdr' = store16 h3 off_udp_len (htons (ucast (pkt_size - 14 - 20)))"
    using assms unfolding tx_stamp_def h1_def h2_def h3_def
    by (auto simp add: Let_def sizeof_eth_hdr_t_def sizeof_ipv4_hdr_t_def split: if_splits)
  have t2: "load16 h2 off_ipv4_tot_len = htons (ucast (pkt_size - 14))"
    unfolding h2_def using len l1
    by (intro load16_store16_same)
       (simp add: off_ipv4_tot_len_def sizeof_eth_hdr_t_def kInetHdrsTotSize_def)
  have t3: "load16 h3 off_ipv4_tot_len = load16 h2 off_ipv4_tot_len"
    by (simp add: h3_def load16_def off_ipv4_tot_len_def off_ipv4_dst_ip_def
        sizeof_eth_hdr_t_def)
  have "load16 (headroom pkthdr') off_ipv4_tot_len = load16 h3 off_ipv4_tot_len"
    unfolding out
    by (intro load16_store16_other)
       (simp add: off_ipv4_tot_len_def off_udp_len_def sizeof_eth_hdr_t_def sizeof_ipv4_hdr_t_def)
  moreover have "load16 (headroom pkthdr') off_udp_len = htons (ucast (pkt_size - 14 - 20))"
    unfolding out using len l3
    by (intro load16_store16_same)
       (simp add: off_udp_len_def sizeof_eth_hdr_t_def sizeof_ipv4_hdr_t_def kInetHdrsTotSize_def)
  ultimately show ?thesis
    by (simp add: lengths_stamped_def t2 t3)
qed

lemma tx_burst_iter_header:
  assumes run: "tx_burst_iter cfg arr i s = Inr s'"
    and same: "same_buffers ms0 (msg_buffers s)"
  obtains pkthdr where
    "msg_buffer (arr ! i) < length (msg_buffers s)"
    "unat (pkt_index (arr ! i)) < length (pkthdrs (msg_buffers s ! msg_buffer (arr ! i)))"
    "msg_buffers s' =
       (msg_buffers s)
         [msg_buffer (arr ! i) :=
            (msg_buffers s ! msg_buffer (arr ! i))
              \<lparr>pkthdrs := (pkthdrs (msg_buffers s ! msg_buffer (arr ! i)))
                   [unat (pkt_index (arr ! i)) := pkthdr]\<rparr>]"
    "lengths_stamped (tx_pkt_size cfg (arr ! i) (ms0 ! msg_buffer (arr ! i))) (headroom pkthdr)"
proof -
  from run obtain fl g k sge0 sge1 inl nsge pkt_size pkthdr where
    b: "msg_buffer (arr ! i) < length (msg_buffers s)"
    and fill: "tx_fill_sgl cfg (arr ! i) (msg_buffers s ! msg_buffer (arr ! i))
                 = (k, sge0, sge1, inl, nsge, pkt_size)"
    and kb: "k < length (pkthdrs (msg_buffers s ! msg_buffer (arr ! i)))"
    and st: "tx_stamp cfg (arr ! i) pkt_size (hw_log s)
               (pkthdrs (msg_buffers s ! msg_buffer (arr ! i)) ! k) = Inr pkthdr"
    and s': "s' = s\<lparr>send_wr := (send_wr s)[i := (send_wr s ! i)\<lparr>send_flags := fl, num_sge := nsge\<rparr>],
           send_sgl := (send_sgl s)
              [i := (sge0, (case sge1 of None \<Rightarrow> snd (send_sgl s ! i) | Some e \<Rightarrow> e))],
           sig_state := g,
           msg_buffers := (msg_buffers s)
              [msg_buffer (arr ! i) :=
                 (msg_buffers s ! msg_buffer (arr ! i))
                   \<lparr>pkthdrs := (pkthdrs (msg_buffers s ! msg_buffer (arr ! i)))[k := pkthdr]\<rparr>]\<rparr>"
    by (rule tx_burst_iter_Inr)
  have k: "k = unat (pkt_index (arr ! i))"
    using fill by (rule tx_fill_sgl_index)
  have r0: "msg_buffer (arr ! i) < length ms0"
    using b same by (simp add: same_buffers_def)
  have "tx_fill_sgl cfg (arr ! i) (ms0 ! msg_buffer (arr ! i))
          = (k, sge0, sge1, inl, nsge, pkt_size)"
    using tx_fill_sgl_same [OF same r0, of cfg "arr ! i"] fill by simp
  then have "tx_pkt_size cfg (arr ! i) (ms0 ! msg_buffer (arr ! i)) = pkt_size"
    by (rule tx_pkt_size_fill)
  with tx_stamp_Inr [OF st]
  have stamped: "lengths_stamped (tx_pkt_size cfg (arr ! i) (ms0 ! msg_buffer (arr ! i)))
                   (headroom pkthdr)"
    by simp
  have upd: "msg_buffers s' =
       (msg_buffers s)
         [msg_buffer (arr ! i) :=
            (msg_buffers s ! msg_buffer (arr ! i))
              \<lparr>pkthdrs := (pkthdrs (msg_buffers s ! msg_buffer (arr ! i)))
                   [unat (pkt_index (arr ! i)) := pkthdr]\<rparr>]"
    by (simp add: s' k)
  from b kb [unfolded k] upd stamped show thesis
    by (rule that)
qed

lemma tx_burst_iter_keeps_stamp:
  assumes run: "tx_burst_iter cfg arr i s = Inr s'"
    and same: "same_buffers ms0 (msg_buffers s)"
    and old: "lengths_stamped (tx_pkt_size cfg item (ms0 ! msg_buffer item))
                (headroom (pkthdrs (msg_buffers s ! msg_buffer item) ! unat (pkt_index item)))"
  shows "lengths_stamped (tx_pkt_size cfg item (ms0 ! msg_buffer item))
           (headroom (pkthdrs (msg_buffers s' ! msg_buffer item) ! unat (pkt_index item)))"
proof -
  from run same obtain pkthdr where
    b: "msg_buffer (arr ! i) < length (msg_buffers s)"
    and kb: "unat (pkt_index (arr ! i)) < length (pkthdrs (msg_buffers s ! msg_buffer (arr ! i)))"
    and upd: "msg_buffers s' =
       (msg_buffers s)
         [msg_buffer (arr ! i) :=
            (msg_buffers s ! msg_buffer (arr ! i))
              \<lparr>pkthdrs := (pkthdrs (msg_buffers s ! msg_buffer (arr ! i)))
                   [unat (pkt_index (arr ! i)) := pkthdr]\<rparr>]"
    and stamped: "lengths_stamped (tx_pkt_size cfg (arr ! i) (ms0 ! msg_buffer (arr ! i)))
                    (headroom pkthdr)"
    by (rule tx_burst_iter_header)
  show ?thesis
  proof (cases "msg_buffer (arr ! i) = msg_buffer item")
    case False
    then have "msg_buffers s' ! msg_buffer item = msg_buffers s ! msg_buffer item"
      by (simp add: upd)
    with old show ?thesis
      by simp
  next
    case r: True
    show ?thesis
    proof (cases "pkt_index (arr ! i) = pkt_index item")
      case True
      have "pkthdrs (msg_buffers s' ! msg_buffer item) ! unat (pkt_index item) = pkthdr"
        using b kb by (simp add: upd r [symmetric] True [symmetric])
      moreover have "tx_pkt_size cfg (arr ! i) (ms0 ! msg_buffer (arr ! i))
               = tx_pkt_size cfg item (ms0 ! msg_buffer item)"
        using tx_pkt_size_index [OF True, of cfg "ms0 ! msg_buffer item"] by (simp add: r)
      ultimately show ?thesis
        using stamped by simp
    next
      case False
      then have "unat (pkt_index (arr ! i)) \<noteq> unat (pkt_index item)"
        by (simp add: word_unat_eq_iff)
      then have "pkthdrs (msg_buffers s' ! msg_buffer item) ! unat (pkt_index item)
          = pkthdrs (msg_buffers s ! msg_buffer item) ! unat (pkt_index item)"
        using b by (simp add: upd r [symmetric])
      with old show ?thesis
        by simp
    qed
  qed
qed

lemma tx_burst_iter_stamp:
  assumes run: "tx_burst_iter cfg arr i s = Inr s'"
    and same: "same_buffers ms0 (msg_buffers s)"
  shows "lengths_stamped (tx_pkt_size cfg (arr ! i) (ms0 ! msg_buffer (arr ! i)))
           (headroom (pkthdrs (msg_buffers s' ! msg_buffer (arr ! i))
                        ! unat (pkt_index (arr ! i))))"
proof -
  from run same obtain pkthdr where
    b: "msg_buffer (arr ! i) < length (msg_buffers s)"
    and kb: "unat (pkt_index (arr ! i)) < length (pkthdrs (msg_buffers s ! msg_buffer (arr ! i)))"
    and upd: "msg_buffers s' =
       (msg_buffers s)
         [msg_buffer (arr ! i) :=
            (msg_buffers s ! msg_buffer (arr ! i))
              \<lparr>pkthdrs := (pkthdrs (msg_buffers s ! msg_buffer (arr ! i)))
                   [unat (pkt_index (arr ! i)) := pkthdr]\<rparr>]"
    and stamped: "lengths_stamped (tx_pkt_size cfg (arr ! i) (ms0 ! msg_buffer (arr ! i)))
                    (headroom pkthdr)"
    by (rule tx_burst_iter_header)
  have "pkthdrs (msg_buffers s' ! msg_buffer (arr ! i)) ! unat (pkt_index (arr ! i)) = pkthdr"
    using b kb by (simp add: upd)
  with stamped show ?thesis
    by simp
qed

lemma tx_burst_loop_keeps_stamp:
  "\<lbrakk>tx_burst_loop cfg arr i n s = Inr s'; same_buffers ms0 (msg_buffers s);
    lengths_stamped (tx_pkt_size cfg item (ms0 ! msg_buffer item))
      (headroom (pkthdrs (msg_buffers s ! msg_buffer item) ! unat (pkt_index item)))\<rbrakk>
   \<Longrightarrow> lengths_stamped (tx_pkt_size cfg item (ms0 ! msg_buffer item))
         (headroom (pkthdrs (msg_buffers s' ! msg_buffer item) ! unat (pkt_index item)))"
proof (induction n arbitrary: i s)
  case 0
  then show ?case by simp
next
  case (Suc n)
  from Suc.prems(1) obtain s1 where
    it: "tx_burst_iter cfg arr i s = Inr s1" and
    rest: "tx_burst_loop cfg arr (Suc i) n s1 = Inr s'"
    by (auto split: sum.splits)
  have same1: "same_buffers ms0 (msg_buffers s1)"
    using Suc.prems(2) tx_burst_iter_frame(5) [OF it] by (rule same_buffers_trans)
  from tx_burst_iter_keeps_stamp [OF it Suc.prems(2) Suc.prems(3)]
  show ?case
    by (rule Suc.IH [OF rest same1])
qed

lemma tx_burst_loop_stamp:
  "\<lbrakk>tx_burst_loop cfg arr i n s = Inr s'; same_buffers ms0 (msg_buffers s); i \<le> j; j < i + n\<rbrakk>
   \<Longrightarrow> lengths_stamped (tx_pkt_size cfg (arr ! j) (ms0 ! msg_buffer (arr ! j)))
         (headroom (pkthdrs (msg_buffers s' ! msg_buffer (arr ! j)) ! unat (pkt_index (arr ! j))))"
proof (induction n arbitrary: i s)
  case 0
  then show ?case by simp
next
  case (Suc n)
  from Suc.prems(1) obtain s1 where
    it: "tx_burst_iter cfg arr i s = Inr s1" and
    rest: "tx_burst_loop cfg arr (Suc i) n s1 = Inr s'"
    by (auto split: sum.splits)
  have same1: "same_buffers ms0 (msg_buffers s1)"
    using Suc.prems(2) tx_burst_iter_frame(5) [OF it] by (rule same_buffers_trans)
  show ?case
  proof (cases "j = i")
    case True
    from tx_burst_iter_stamp [OF it Suc.prems(2)] True
    have "lengths_stamped (tx_pkt_size cfg (arr ! j) (ms0 ! msg_buffer (arr ! j)))
            (headroom (pkthdrs (msg_buffers s1 ! msg_buffer (arr ! j))
                         ! unat (pkt_index (arr ! j))))"
      by simp
    then show ?thesis
      by (rule tx_burst_loop_keeps_stamp [OF rest same1])
  next
    case False
    with Suc.prems have "Suc i \<le> j" "j < Suc i + n"
      by simp_all
    then show ?thesis
      by (rule Suc.IH [OF rest same1])
  qed
qed


subsection \<open>\<^verbatim>\<open>tx_burst\<close>: the descriptor chain\<close>

text \<open>
  Claim C3. When \<^verbatim>\<open>tx_burst\<close> returns from a call with \<open>1 \<le> n \<le> kPostlist\<close> on an intact
  chain, the chain is intact again and every \<open>next\<close> pointer is what it was before the
  call. During the post the chain ends at descriptor \<open>n - 1\<close>: the driver, walking from
  descriptor 0, reads exactly the descriptors \<open>0, ..., n - 1\<close>.
\<close>

theorem tx_burst_restores_chain:
  assumes run: "tx_burst cfg arr n s = Inr s'"
    and n1: "1 \<le> n"
    and nmax: "n \<le> kPostlist cfg"
    and cap: "unat (kPostlist cfg) < length (send_wr s)"
    and intact: "chain_intact (send_wr s)"
  shows "chain_intact (send_wr s') \<and>
         map wr_next (send_wr s') = map wr_next (send_wr s) \<and>
         (\<exists>wrs sgls. hw_log s' = hw_log s @ [Ibv_post_send 0 wrs sgls] \<and>
            wr_next (wrs ! (unat n - 1)) = None \<and>
            send_chain (length wrs) wrs 0 = [0..<unat n])"
proof -
  from run obtain s1 wrs where
    loop: "tx_burst_loop cfg arr 0 (unat n) s = Inr s1" and
    wrs: "wrs = (send_wr s1)[unat (n - 1) := (send_wr s1 ! unat (n - 1))\<lparr>wr_next := None\<rparr>]" and
    s': "s' = s1\<lparr>send_wr := wrs[unat (n - 1) := (wrs ! unat (n - 1))\<lparr>wr_next := Some (unat n)\<rparr>],
            hw_log := hw_log s1 @ [Ibv_post_send 0 wrs (send_sgl s1)]\<rparr>"
    by (rule tx_burst_Inr)
  let ?l = "unat n - 1"
  have l: "unat (n - 1) = ?l"
    using n1 by (rule unat_pred)
  have npos: "0 < unat n"
    using n1 by (simp add: word_le_nat_alt)
  have nle: "unat n \<le> unat (kPostlist cfg)"
    using nmax by (simp add: word_le_nat_alt)
  from tx_burst_loop_frame [OF loop] have
    lg: "hw_log s1 = hw_log s" and len: "length (send_wr s1) = length (send_wr s)" and
    nx: "map wr_next (send_wr s1) = map wr_next (send_wr s)"
    by simp_all
  have lt: "Suc ?l < length (send_wr s)"
    using npos nle cap by simp
  have orig: "\<And>i. Suc i < length (send_wr s) \<Longrightarrow> wr_next (send_wr s ! i) = Some (Suc i)"
    using intact by (simp add: chain_intact_iff)
  have nx1: "\<And>i. i < length (send_wr s) \<Longrightarrow> wr_next (send_wr s1 ! i) = wr_next (send_wr s ! i)"
  proof -
    fix i assume i: "i < length (send_wr s)"
    have "map wr_next (send_wr s1) ! i = map wr_next (send_wr s) ! i"
      by (simp only: nx)
    with i len show "wr_next (send_wr s1 ! i) = wr_next (send_wr s ! i)"
      by simp
  qed
  have "map wr_next (send_wr s') = (map wr_next (send_wr s1))[?l := Some (unat n)]"
    by (simp add: s' wrs l map_update)
  also have "\<dots> = (map wr_next (send_wr s))[?l := Some (Suc ?l)]"
    using npos by (simp add: nx)
  also have "\<dots> = map wr_next (send_wr s)"
    using lt orig [of ?l] by (simp add: list_update_same_conv)
  finally have same: "map wr_next (send_wr s') = map wr_next (send_wr s)" .
  have intact': "chain_intact (send_wr s')"
    using intact chain_intact_cong [OF same] by simp
  have lenw: "length wrs = length (send_wr s)"
    by (simp add: wrs len)
  have last_none: "wr_next (wrs ! ?l) = None"
    using lt by (simp add: wrs l len)
  have before: "\<forall>j. 0 \<le> j \<and> j < ?l \<longrightarrow> wr_next (wrs ! j) = Some (Suc j)"
    using lt by (simp add: wrs l nx1 orig)
  have "send_chain (length wrs) wrs 0 = [0..<Suc ?l]"
    using before last_none lt by (intro send_chain_upto) (simp_all add: lenw)
  then have chain: "send_chain (length wrs) wrs 0 = [0..<unat n]"
    using npos by simp
  have "hw_log s' = hw_log s @ [Ibv_post_send 0 wrs (send_sgl s1)]"
    by (simp add: s' lg)
  with intact' same last_none chain show ?thesis
    by blast
qed

theorem tx_burst_restores_chain_witness:
  "tx_burst example_cfg example_items 2 example_transport = Inr example_sent \<and>
   (1 :: size_t) \<le> 2 \<and> 2 \<le> kPostlist example_cfg \<and>
   chain_intact (send_wr example_transport) \<and>
   chain_intact (send_wr example_sent) \<and>
   map wr_next (send_wr example_sent) = map wr_next (send_wr example_transport) \<and>
   (\<exists>wrs sgls. hw_log example_sent = hw_log example_transport @ [Ibv_post_send 0 wrs sgls] \<and>
      wr_next (wrs ! (unat (2 :: size_t) - 1)) = None \<and>
      send_chain (length wrs) wrs 0 = [0..<unat (2 :: size_t)])"
proof -
  have n1: "(1 :: size_t) \<le> 2"
    by simp
  have nmax: "2 \<le> kPostlist example_cfg"
    by (simp add: example_cfg_simps)
  have cap: "unat (kPostlist example_cfg) < length (send_wr example_transport)"
    by (simp add: example_cfg_simps example_transport_def)
  have intact: "chain_intact (send_wr example_transport)"
    by code_simp
  from tx_burst_restores_chain [OF example_tx_burst n1 nmax cap intact]
  show ?thesis
    using example_tx_burst n1 nmax intact by blast
qed


text \<open>
  Claim C10. With \<^verbatim>\<open>send_wr\<close> of more than \<open>kPostlist\<close> descriptors and \<^verbatim>\<open>send_sgl\<close> of at
  least \<open>kPostlist\<close> rows, a call with \<open>1 \<le> n \<le> kPostlist\<close> never leaves either array:
  the indices \<open>0, ..., n - 1\<close> of the loop, the index \<open>n - 1\<close> of the two chain writes,
  and the restore target \<open>n\<close> are inside \<^verbatim>\<open>send_wr\<close>. For \<open>n = 0\<close> the index \<open>n - 1\<close>
  wraps to \<open>2 ^ 64 - 1\<close> and the first chain write is outside the array.
\<close>

theorem tx_burst_array_bounds:
  assumes cap: "unat (kPostlist cfg) < length (send_wr s)"
    and sgl: "unat (kPostlist cfg) \<le> length (send_sgl s)"
    and len: "length (send_wr s) < 2 ^ 64"
  shows "(1 \<le> n \<and> n \<le> kPostlist cfg \<longrightarrow>
            tx_burst cfg arr n s \<noteq> Inl (OutOfBounds SendWr) \<and>
            tx_burst cfg arr n s \<noteq> Inl (OutOfBounds SendSgl) \<and>
            unat (n - 1) < length (send_wr s) \<and> unat n < length (send_wr s)) \<and>
         unat ((0 :: size_t) - 1) = 2 ^ 64 - 1 \<and>
         tx_burst cfg arr 0 s = Inl (OutOfBounds SendWr)"
proof (intro conjI impI)
  assume n: "1 \<le> n \<and> n \<le> kPostlist cfg"
  then have n1: "1 \<le> unat n" and nle: "unat n \<le> unat (kPostlist cfg)"
    by (simp_all add: word_le_nat_alt)
  have l: "unat (n - 1) = unat n - 1"
    using n by (simp add: unat_pred)
  show lastb: "unat (n - 1) < length (send_wr s)"
    using l n1 nle cap by simp
  show "unat n < length (send_wr s)"
    using nle cap by simp
  have loop: "tx_burst_loop cfg arr 0 (unat n) s \<noteq> Inl (OutOfBounds SendWr) \<and>
              tx_burst_loop cfg arr 0 (unat n) s \<noteq> Inl (OutOfBounds SendSgl)"
    using nle cap sgl by (intro tx_burst_loop_no_oob) simp_all
  show "tx_burst cfg arr n s \<noteq> Inl (OutOfBounds SendWr)"
  proof (cases "tx_burst_loop cfg arr 0 (unat n) s")
    case (Inl e)
    with loop show ?thesis by (simp add: tx_burst_def)
  next
    case (Inr s1)
    from tx_burst_loop_frame [OF Inr] have "length (send_wr s1) = length (send_wr s)"
      by simp
    with Inr lastb show ?thesis
      by (simp add: tx_burst_def Let_def)
  qed
  show "tx_burst cfg arr n s \<noteq> Inl (OutOfBounds SendSgl)"
  proof (cases "tx_burst_loop cfg arr 0 (unat n) s")
    case (Inl e)
    with loop show ?thesis by (simp add: tx_burst_def)
  next
    case (Inr s1)
    then show ?thesis
      by (simp add: tx_burst_def Let_def)
  qed
next
  show w: "unat ((0 :: size_t) - 1) = 2 ^ 64 - 1"
    by (simp add: unsigned_minus_1_eq_mask mask_eq_exp_minus_1)
  have "length (send_wr s) \<le> unat ((0 :: size_t) - 1)"
    using len by (simp only: w)
  then show "tx_burst cfg arr 0 s = Inl (OutOfBounds SendWr)"
    by (simp add: tx_burst_def Let_def)
qed


theorem tx_burst_array_bounds_witness:
  "unat (kPostlist example_cfg) < length (send_wr example_transport) \<and>
   unat (kPostlist example_cfg) \<le> length (send_sgl example_transport) \<and>
   (1 :: size_t) \<le> 2 \<and> 2 \<le> kPostlist example_cfg \<and>
   tx_burst example_cfg example_items 2 example_transport \<noteq> Inl (OutOfBounds SendWr) \<and>
   tx_burst example_cfg example_items 2 example_transport \<noteq> Inl (OutOfBounds SendSgl) \<and>
   tx_burst example_cfg example_items 2 example_transport = Inr example_sent \<and>
   tx_burst example_cfg example_items 0 example_transport = Inl (OutOfBounds SendWr)"
proof -
  have cap: "unat (kPostlist example_cfg) < length (send_wr example_transport)"
    by (simp add: example_cfg_simps example_transport_def)
  have sgl: "unat (kPostlist example_cfg) \<le> length (send_sgl example_transport)"
    by (simp add: example_cfg_simps example_transport_def)
  have len: "length (send_wr example_transport) < 2 ^ 64"
    by (simp add: example_transport_def)
  have n: "(1 :: size_t) \<le> 2 \<and> 2 \<le> kPostlist example_cfg"
    by (simp add: example_cfg_simps)
  from tx_burst_array_bounds [OF cap sgl len, of 2 example_items] n
  have "tx_burst example_cfg example_items 2 example_transport \<noteq> Inl (OutOfBounds SendWr) \<and>
        tx_burst example_cfg example_items 2 example_transport \<noteq> Inl (OutOfBounds SendSgl) \<and>
        tx_burst example_cfg example_items 0 example_transport = Inl (OutOfBounds SendWr)"
    by blast
  with cap sgl n example_tx_burst show ?thesis
    by blast
qed


subsection \<open>\<^verbatim>\<open>tx_burst\<close>: scatter-gather entries and header lengths\<close>

text \<open>
  Claim C1. After a call of \<^verbatim>\<open>tx_burst\<close> over \<open>n\<close> items that returns, descriptor \<open>i\<close>,
  for every \<open>i < n\<close>, is the one of item \<open>i\<close>. For packet index 0 it has one entry, the
  packet header of the message, and the packet size is the length of that entry. For
  any other packet index it has two entries: the header of that packet, of
  \<^verbatim>\<open>sizeof(pkthdr_t)\<close> bytes, and the data at offset \<open>pkt_index * kMaxDataPerPkt\<close>, of
  length \<open>min kMaxDataPerPkt (data_size - offset)\<close>; the packet size is the sum of the two
  lengths. The lengths are \<^verbatim>\<open>uint32_t\<close>: header and data of one packet fit in 32 bits.
\<close>

theorem tx_burst_gather_entries:
  assumes run: "tx_burst cfg arr n s = Inr s'"
    and i: "i < unat n"
    and fit: "unat (sizeof_pkthdr_t cfg) + unat (kMaxDataPerPkt cfg) < 2 ^ 32"
    and item: "item = arr ! i"
    and mb: "mb = msg_buffers s ! msg_buffer item"
    and offset: "offset = pkt_index item * kMaxDataPerPkt cfg"
    and sge0: "sge0 = fst (send_sgl s' ! i)"
    and sge1: "sge1 = snd (send_sgl s' ! i)"
  shows "(pkt_index item = 0 \<longrightarrow>
            num_sge (send_wr s' ! i) = 1 \<and>
            sge_addr sge0 = PktHdrAddr (msg_buffer item) 0 \<and>
            sge_length sge0 = ucast (get_pkt_size_0 mb) \<and>
            unat (tx_pkt_size cfg item mb) = unat (sge_length sge0)) \<and>
         (pkt_index item \<noteq> 0 \<longrightarrow>
            num_sge (send_wr s' ! i) = 2 \<and>
            sge_addr sge0 = PktHdrAddr (msg_buffer item) (unat (pkt_index item)) \<and>
            unat (sge_length sge0) = unat (sizeof_pkthdr_t cfg) \<and>
            sge_addr sge1 = BufAddr (msg_buffer item) offset \<and>
            unat (sge_length sge1) =
              min (unat (kMaxDataPerPkt cfg)) (unat (data_size mb - offset)) \<and>
            unat (tx_pkt_size cfg item mb) = unat (sge_length sge0) + unat (sge_length sge1))"
proof -
  from run obtain s1 wrs where
    loop: "tx_burst_loop cfg arr 0 (unat n) s = Inr s1" and
    inb: "unat (n - 1) < length (send_wr s1)" and
    s': "s' = s1\<lparr>send_wr := wrs[unat (n - 1) := (wrs ! unat (n - 1))\<lparr>wr_next := Some (unat n)\<rparr>],
            hw_log := hw_log s1 @ [Ibv_post_send 0 wrs (send_sgl s1)]\<rparr>" and
    wrs: "wrs = (send_wr s1)[unat (n - 1) := (send_wr s1 ! unat (n - 1))\<lparr>wr_next := None\<rparr>]"
    by (rule tx_burst_Inr)
  have sgl_eq: "send_sgl s' = send_sgl s1"
    by (simp add: s')
  have nsge_eq: "num_sge (send_wr s' ! i) = num_sge (send_wr s1 ! i)"
    using inb by (cases "i = unat (n - 1)") (simp_all add: s' wrs)
  obtain k e0 e1 inl nsge pkt_size where
    fill: "tx_fill_sgl cfg (arr ! i) (msg_buffers s ! msg_buffer (arr ! i))
             = (k, e0, e1, inl, nsge, pkt_size)"
    by (cases "tx_fill_sgl cfg (arr ! i) (msg_buffers s ! msg_buffer (arr ! i))")
  from tx_burst_loop_row [OF loop same_buffers_refl _ _ fill] i
  have row: "num_sge (send_wr s1 ! i) = nsge" "fst (send_sgl s1 ! i) = e0"
    "\<And>e. e1 = Some e \<Longrightarrow> snd (send_sgl s1 ! i) = e"
    by simp_all
  have psz: "tx_pkt_size cfg item mb = pkt_size"
    using fill by (simp add: item mb tx_pkt_size_fill)
  have hdr32: "unat (ucast (sizeof_pkthdr_t cfg) :: uint32_t) = unat (sizeof_pkthdr_t cfg)"
    using fit by (intro unat_ucast_64_32) simp
  let ?rem = "min (kMaxDataPerPkt cfg) (data_size mb - offset)"
  have rem_le: "unat ?rem \<le> unat (kMaxDataPerPkt cfg)"
    by (simp add: unat_min)
  have rem32: "unat (ucast ?rem :: uint32_t) = unat ?rem"
    using fit rem_le by (intro unat_ucast_64_32) simp
  have sum32: "unat ((ucast (sizeof_pkthdr_t cfg) :: uint32_t) + ucast ?rem)
                 = unat (sizeof_pkthdr_t cfg) + unat ?rem"
    using fit rem_le by (simp add: unat_add_lem [THEN iffD1] hdr32 rem32)
  show ?thesis
  proof (intro conjI impI)
    assume z: "pkt_index item = 0"
    with fill have v: "e0 = \<lparr>sge_addr = PktHdrAddr (msg_buffer item) 0,
                             sge_length = ucast (get_pkt_size_0 mb), sge_lkey = lkey mb\<rparr>"
      "nsge = 1" "pkt_size = ucast (ucast (get_pkt_size_0 mb) :: uint32_t)"
      by (auto simp add: tx_fill_sgl_def Let_def item mb)
    show "num_sge (send_wr s' ! i) = 1"
      by (simp add: nsge_eq row v)
    show "sge_addr sge0 = PktHdrAddr (msg_buffer item) 0"
      by (simp add: sge0 sgl_eq row v)
    show "sge_length sge0 = ucast (get_pkt_size_0 mb)"
      by (simp add: sge0 sgl_eq row v)
    show "unat (tx_pkt_size cfg item mb) = unat (sge_length sge0)"
      by (simp add: psz sge0 sgl_eq row v unat_ucast_32_64)
  next
    assume nz: "pkt_index item \<noteq> 0"
    with fill have v: "e0 = \<lparr>sge_addr = PktHdrAddr (msg_buffer item) (unat (pkt_index item)),
                             sge_length = ucast (sizeof_pkthdr_t cfg), sge_lkey = lkey mb\<rparr>"
      "e1 = Some \<lparr>sge_addr = BufAddr (msg_buffer item) offset,
                  sge_length = ucast ?rem, sge_lkey = lkey mb\<rparr>"
      "nsge = 2"
      "pkt_size = ucast ((ucast (sizeof_pkthdr_t cfg) :: uint32_t) + ucast ?rem)"
      by (auto simp add: tx_fill_sgl_def Let_def item mb offset)
    have e1: "sge1 = \<lparr>sge_addr = BufAddr (msg_buffer item) offset,
                      sge_length = ucast ?rem, sge_lkey = lkey mb\<rparr>"
      using row(3) [OF v(2)] by (simp add: sge1 sgl_eq)
    show "num_sge (send_wr s' ! i) = 2"
      by (simp add: nsge_eq row v)
    show "sge_addr sge0 = PktHdrAddr (msg_buffer item) (unat (pkt_index item))"
      by (simp add: sge0 sgl_eq row v)
    show l0: "unat (sge_length sge0) = unat (sizeof_pkthdr_t cfg)"
      by (simp add: sge0 sgl_eq row v hdr32)
    show "sge_addr sge1 = BufAddr (msg_buffer item) offset"
      by (simp add: e1)
    show l1: "unat (sge_length sge1) =
              min (unat (kMaxDataPerPkt cfg)) (unat (data_size mb - offset))"
      by (simp add: e1 rem32 unat_min)
    show "unat (tx_pkt_size cfg item mb) = unat (sge_length sge0) + unat (sge_length sge1)"
      by (simp add: psz v(4) unat_ucast_32_64 sum32 l0 l1 unat_min)
  qed
qed

theorem tx_burst_gather_entries_witness:
  "tx_burst example_cfg example_items 2 example_transport = Inr example_sent \<and>
   pkt_index (example_items ! 0) = 0 \<and>
   num_sge (send_wr example_sent ! 0) = 1 \<and>
   sge_length (fst (send_sgl example_sent ! 0)) = 100 \<and>
   unat (tx_pkt_size example_cfg (example_items ! 0)
           (msg_buffers example_transport ! msg_buffer (example_items ! 0))) = 100 \<and>
   pkt_index (example_items ! 1) = 1 \<and>
   num_sge (send_wr example_sent ! 1) = 2 \<and>
   sge_addr (snd (send_sgl example_sent ! 1)) = BufAddr 0 44 \<and>
   unat (sge_length (fst (send_sgl example_sent ! 1))) = 56 \<and>
   unat (sge_length (snd (send_sgl example_sent ! 1))) = 4 \<and>
   unat (tx_pkt_size example_cfg (example_items ! 1)
           (msg_buffers example_transport ! msg_buffer (example_items ! 1))) = 60"
proof -
  have fit: "unat (sizeof_pkthdr_t example_cfg) + unat (kMaxDataPerPkt example_cfg) < 2 ^ 32"
    by (simp add: example_cfg_simps)
  have i0: "0 < unat (2 :: size_t)" and i1: "1 < unat (2 :: size_t)"
    by simp_all
  have p0: "pkt_index (example_items ! 0) = 0" and p1: "pkt_index (example_items ! 1) = 1"
    and m1: "msg_buffer (example_items ! 1) = 0"
    by (simp_all add: example_items_def)
  have v0: "unat (sge_length (fst (send_sgl example_sent ! 0))) = 100"
    and w0: "sge_length (fst (send_sgl example_sent ! 0)) = 100"
    and v1: "unat (sge_length (fst (send_sgl example_sent ! 1))) = 56"
    and v2: "unat (sge_length (snd (send_sgl example_sent ! 1))) = 4"
    by (simp_all add: example_sent_def example_filled_def)
  note t0 = tx_burst_gather_entries [OF example_tx_burst i0 fit refl refl refl refl refl]
  note t1 = tx_burst_gather_entries [OF example_tx_burst i1 fit refl refl refl refl refl]
  from t0 p0 have a: "num_sge (send_wr example_sent ! 0) = 1"
    "unat (tx_pkt_size example_cfg (example_items ! 0)
             (msg_buffers example_transport ! msg_buffer (example_items ! 0)))
       = unat (sge_length (fst (send_sgl example_sent ! 0)))"
    by blast+
  have nz: "pkt_index (example_items ! 1) \<noteq> 0"
    by (simp add: example_items_def)
  from t1 nz have b: "num_sge (send_wr example_sent ! 1) = 2"
    "sge_addr (snd (send_sgl example_sent ! 1))
       = BufAddr (msg_buffer (example_items ! 1))
           (pkt_index (example_items ! 1) * kMaxDataPerPkt example_cfg)"
    "unat (tx_pkt_size example_cfg (example_items ! 1)
             (msg_buffers example_transport ! msg_buffer (example_items ! 1)))
       = unat (sge_length (fst (send_sgl example_sent ! 1)))
         + unat (sge_length (snd (send_sgl example_sent ! 1)))"
    by blast+
  have addr: "sge_addr (snd (send_sgl example_sent ! 1)) = BufAddr 0 44"
    unfolding b(2) by (simp add: example_items_def example_cfg_simps)
  show ?thesis
    using example_tx_burst p0 p1 a b(1,3) addr v0 w0 v1 v2 by simp
qed


text \<open>
  Claim C2. After a call of \<^verbatim>\<open>tx_burst\<close> that returns, the headroom of the packet of
  every item holds, at the offsets of the IPv4 total length and of the UDP length, the
  bytes that \<^verbatim>\<open>htons\<close> gives for \<open>pkt_size - 14\<close> and for \<open>pkt_size - 14 - 20\<close>, cut to 16
  bits. Read in network byte order they are the numbers \<open>pkt_size - 14\<close> and
  \<open>pkt_size - 14 - 20\<close> whenever these fit the fields: \<open>34 \<le> pkt_size < 2 ^ 16 + 14\<close>.
\<close>

theorem tx_burst_stamps_lengths:
  assumes run: "tx_burst cfg arr n s = Inr s'"
    and i: "i < unat n"
    and item: "item = arr ! i"
    and mb: "mb = msg_buffers s ! msg_buffer item"
    and psz: "pkt_size = tx_pkt_size cfg item mb"
    and h: "h = headroom (pkthdrs (msg_buffers s' ! msg_buffer item) ! unat (pkt_index item))"
  shows "load16 h off_ipv4_tot_len = htons (ucast (pkt_size - 14)) \<and>
         load16 h off_udp_len = htons (ucast (pkt_size - 14 - 20)) \<and>
         (34 \<le> unat pkt_size \<and> unat pkt_size < 2 ^ 16 + 14 \<longrightarrow>
            ntohs_val (load16 h off_ipv4_tot_len) = unat pkt_size - 14 \<and>
            ntohs_val (load16 h off_udp_len) = unat pkt_size - 14 - 20)"
proof -
  from run obtain s1 wrs where
    loop: "tx_burst_loop cfg arr 0 (unat n) s = Inr s1" and
    s': "s' = s1\<lparr>send_wr := wrs[unat (n - 1) := (wrs ! unat (n - 1))\<lparr>wr_next := Some (unat n)\<rparr>],
            hw_log := hw_log s1 @ [Ibv_post_send 0 wrs (send_sgl s1)]\<rparr>"
    by (rule tx_burst_Inr)
  have "msg_buffers s' = msg_buffers s1"
    by (simp add: s')
  with tx_burst_loop_stamp [OF loop same_buffers_refl, of i] i
  have st: "lengths_stamped pkt_size h"
    by (simp add: psz h item mb)
  then have f: "load16 h off_ipv4_tot_len = htons (ucast (pkt_size - 14))"
    "load16 h off_udp_len = htons (ucast (pkt_size - 14 - 20))"
    by (simp_all add: lengths_stamped_def)
  have nat_level: "ntohs_val (load16 h off_ipv4_tot_len) = unat pkt_size - 14 \<and>
      ntohs_val (load16 h off_udp_len) = unat pkt_size - 14 - 20"
    if r: "34 \<le> unat pkt_size \<and> unat pkt_size < 2 ^ 16 + 14"
  proof -
    from r have r1: "34 \<le> unat pkt_size" and r2: "unat pkt_size < 65550"
      by simp_all
    have "14 \<le> pkt_size"
      using r1 by (simp add: word_le_nat_alt)
    then have a: "unat (pkt_size - 14) = unat pkt_size - 14"
      by (simp add: unat_sub)
    have "34 \<le> pkt_size"
      using r1 by (simp add: word_le_nat_alt)
    then have b: "unat (pkt_size - 34) = unat pkt_size - 34"
      by (rule unat_sub [where b = 34 and a = pkt_size, simplified])
    have "unat (ucast (pkt_size - 14) :: uint16_t) = unat pkt_size - 14"
      using r1 r2 by (simp add: unat_ucast_mod a)
    moreover have "unat (ucast (pkt_size - 14 - 20) :: uint16_t) = unat pkt_size - 14 - 20"
      using r1 r2 by (simp add: unat_ucast_mod b)
    ultimately show ?thesis
      by (simp add: f ntohs_htons)
  qed
  from f nat_level show ?thesis
    by blast
qed

theorem tx_burst_stamps_lengths_witness:
  "tx_burst example_cfg example_items 2 example_transport = Inr example_sent \<and>
   unat (tx_pkt_size example_cfg (example_items ! 0) (msg_buffers example_transport ! 0)) = 100 \<and>
   load16 (headroom (pkthdrs (msg_buffers example_sent ! 0) ! 0)) off_ipv4_tot_len = (0, 86) \<and>
   load16 (headroom (pkthdrs (msg_buffers example_sent ! 0) ! 0)) off_udp_len = (0, 66) \<and>
   ntohs_val (load16 (headroom (pkthdrs (msg_buffers example_sent ! 0) ! 0)) off_ipv4_tot_len) = 86 \<and>
   ntohs_val (load16 (headroom (pkthdrs (msg_buffers example_sent ! 0) ! 0)) off_udp_len) = 66 \<and>
   unat (tx_pkt_size example_cfg (example_items ! 1) (msg_buffers example_transport ! 0)) = 60 \<and>
   ntohs_val (load16 (headroom (pkthdrs (msg_buffers example_sent ! 0) ! 1)) off_ipv4_tot_len) = 46 \<and>
   ntohs_val (load16 (headroom (pkthdrs (msg_buffers example_sent ! 0) ! 1)) off_udp_len) = 26"
proof -
  have i0: "0 < unat (2 :: size_t)" and i1: "1 < unat (2 :: size_t)"
    by simp_all
  have m: "msg_buffer (example_items ! 0) = 0" "msg_buffer (example_items ! Suc 0) = 0"
    "unat (pkt_index (example_items ! 0)) = 0" "unat (pkt_index (example_items ! Suc 0)) = Suc 0"
    by (simp_all add: example_items_def)
  have z0: "tx_pkt_size example_cfg (example_items ! 0) (msg_buffers example_transport ! 0) = 100"
    and z1: "tx_pkt_size example_cfg (example_items ! Suc 0) (msg_buffers example_transport ! 0) = 60"
    by (simp_all add: tx_pkt_size_def tx_fill_sgl_def Let_def example_cfg_simps example_items_def
        example_transport_def example_msg_buffer_def)
  note t0 = tx_burst_stamps_lengths [OF example_tx_burst i0 refl refl refl refl]
  note t1 = tx_burst_stamps_lengths [OF example_tx_burst i1 refl refl refl refl]
  from t0 have a:
    "load16 (headroom (pkthdrs (msg_buffers example_sent ! 0) ! 0)) off_ipv4_tot_len = (0, 86)"
    "load16 (headroom (pkthdrs (msg_buffers example_sent ! 0) ! 0)) off_udp_len = (0, 66)"
    "ntohs_val (load16 (headroom (pkthdrs (msg_buffers example_sent ! 0) ! 0)) off_ipv4_tot_len) = 86"
    "ntohs_val (load16 (headroom (pkthdrs (msg_buffers example_sent ! 0) ! 0)) off_udp_len) = 66"
    by (simp_all add: m z0 htons_def ntohs_val_def)
  from t1 have b:
    "ntohs_val (load16 (headroom (pkthdrs (msg_buffers example_sent ! 0) ! 1)) off_ipv4_tot_len) = 46"
    "ntohs_val (load16 (headroom (pkthdrs (msg_buffers example_sent ! 0) ! 1)) off_udp_len) = 26"
    by (simp_all add: m z1 htons_def ntohs_val_def)
  show ?thesis
    using example_tx_burst a b by (simp add: z0 z1)
qed


subsection \<open>\<^verbatim>\<open>rx_burst\<close>, emulated polling\<close>

text \<open>
  Claim C4. In emulated mode (\<open>kDumb\<close>), when the delta \<open>d\<close> between the previous and
  the current snapshot satisfies \<open>0 < d < kNumRxRingEntries\<close>, \<^verbatim>\<open>rx_burst\<close> returns
  \<open>min (recv_backlog + d) kPostlist\<close>, leaves the backlog at \<open>recv_backlog + d\<close> minus
  the returned count, moves \<open>recv_head\<close> forward by the returned count modulo
  \<open>kNumRxRingEntries\<close>, moves \<open>cqe_idx\<close> forward by one modulo \<open>kRecvCQDepth\<close>, stores
  the current snapshot as \<open>prev_snapshot\<close> and changes nothing else. Sums and
  differences are those of \<^verbatim>\<open>size_t\<close>; they are the sums and differences of natural
  numbers when \<open>recv_backlog + d\<close> does not wrap. The head starts inside the ring.
\<close>

theorem rx_burst_emulated_progress:
  assumes dumb: "kDumb cfg"
    and idx: "unat (cqe_idx s) < length (recv_cqe_arr s)"
    and depth: "kRecvCQDepth cfg \<noteq> 0"
    and cur: "cur = recv_cqe_arr s ! unat (cqe_idx s)"
    and d: "d = get_cqe_cycle_delta cfg (prev_snapshot s) cur"
    and pos: "0 < d"
    and lt: "d < kNumRxRingEntries cfg"
    and head: "recv_head s < kNumRxRingEntries cfg"
    and ret: "ret = min (recv_backlog s + d) (kPostlist cfg)"
  shows "\<exists>h. rx_burst cfg s =
            Inr (ret, s\<lparr>recv_backlog := recv_backlog s + d - ret,
                        recv_head := h,
                        cqe_idx := (cqe_idx s + 1) mod kRecvCQDepth cfg,
                        prev_snapshot := cur\<rparr>) \<and>
          unat h = (unat (recv_head s) + unat ret) mod unat (kNumRxRingEntries cfg) \<and>
          (unat (recv_backlog s) + unat d < 2 ^ 64 \<longrightarrow>
             unat ret = min (unat (recv_backlog s) + unat d) (unat (kPostlist cfg)) \<and>
             unat (recv_backlog s + d - ret) = unat (recv_backlog s) + unat d - unat ret)"
proof -
  from rx_advance_head [OF head, of "unat ret"] obtain h where
    h: "rx_advance cfg (unat ret) (recv_head s) = Inr h"
       "unat h = (unat (recv_head s) + unat ret) mod unat (kNumRxRingEntries cfg)"
    by blast
  have clamp: "(if recv_backlog s + d < kPostlist cfg then recv_backlog s + d
                else kPostlist cfg) = ret"
    unfolding ret by (auto simp add: min_def)
  have nz: "\<not> (d = 0 \<or> kNumRxRingEntries cfg \<le> d)"
    using pos lt by (simp add: word_neq_0_conv not_le)
  have run: "rx_burst cfg s =
      Inr (ret, s\<lparr>recv_backlog := recv_backlog s + d - ret, recv_head := h,
                  cqe_idx := (cqe_idx s + 1) mod kRecvCQDepth cfg, prev_snapshot := cur\<rparr>)"
    unfolding rx_burst_def using dumb idx depth nz h(1)
    by (simp add: Let_def cur [symmetric] d [symmetric] clamp)
  have nat_level: "unat ret = min (unat (recv_backlog s) + unat d) (unat (kPostlist cfg)) \<and>
      unat (recv_backlog s + d - ret) = unat (recv_backlog s) + unat d - unat ret"
    if no_ov: "unat (recv_backlog s) + unat d < 2 ^ 64"
  proof -
    have sum: "unat (recv_backlog s + d) = unat (recv_backlog s) + unat d"
      using no_ov by (simp add: unat_add_lem [THEN iffD1])
    have le: "ret \<le> recv_backlog s + d"
      unfolding ret by simp
    have "unat ret = min (unat (recv_backlog s + d)) (unat (kPostlist cfg))"
      unfolding ret by (simp add: min_def word_le_nat_alt)
    moreover have "unat (recv_backlog s + d - ret) = unat (recv_backlog s + d) - unat ret"
      using le by (rule unat_sub)
    ultimately show ?thesis by (simp add: sum)
  qed
  show ?thesis
    using run h(2) nat_level by blast
qed

theorem rx_burst_emulated_progress_witness:
  "kDumb example_cfg \<and>
   get_cqe_cycle_delta example_cfg (prev_snapshot example_transport)
     (recv_cqe_arr example_transport ! unat (cqe_idx example_transport)) = 2 \<and>
   (2 :: size_t) < kNumRxRingEntries example_cfg \<and>
   recv_backlog example_transport = 1 \<and> recv_head example_transport = 7 \<and>
   cqe_idx example_transport = 1 \<and>
   rx_burst example_cfg example_transport =
     Inr (2, example_transport\<lparr>recv_backlog := 1, recv_head := 1, cqe_idx := 0,
                               prev_snapshot := 7\<rparr>)"
proof -
  have a1: "kDumb example_cfg"
    by (simp add: example_cfg_simps)
  have a2: "unat (cqe_idx example_transport) < length (recv_cqe_arr example_transport)"
    by (simp add: example_transport_def)
  have a3: "kRecvCQDepth example_cfg \<noteq> 0"
    by (simp add: example_cfg_simps)
  have a4: "(7 :: size_t) = recv_cqe_arr example_transport ! unat (cqe_idx example_transport)"
    by (simp add: example_transport_def)
  have a5: "(2 :: size_t) = get_cqe_cycle_delta example_cfg (prev_snapshot example_transport) 7"
    by (simp add: example_cfg_simps example_transport_def)
  have a6: "(0 :: size_t) < 2"
    by simp
  have a7: "(2 :: size_t) < kNumRxRingEntries example_cfg"
    by (simp add: example_cfg_simps)
  have a8: "recv_head example_transport < kNumRxRingEntries example_cfg"
    by (simp add: example_cfg_simps example_transport_def)
  have a9: "(2 :: size_t) = min (recv_backlog example_transport + 2) (kPostlist example_cfg)"
    by (simp add: example_cfg_simps example_transport_def)
  from rx_burst_emulated_progress [OF a1 a2 a3 a4 a5 a6 a7 a8 a9] obtain h where
    run: "rx_burst example_cfg example_transport =
            Inr (2, example_transport
                      \<lparr>recv_backlog := recv_backlog example_transport + 2 - 2,
                       recv_head := h,
                       cqe_idx := (cqe_idx example_transport + 1) mod kRecvCQDepth example_cfg,
                       prev_snapshot := 7\<rparr>)"
    and h: "unat h = (unat (recv_head example_transport) + unat (2 :: size_t))
                       mod unat (kNumRxRingEntries example_cfg)"
    by blast
  have "unat h = 1"
    using h by (simp add: example_cfg_simps example_transport_def)
  then have "h = 1"
    by (simp add: word_unat_eq_iff)
  with run have "rx_burst example_cfg example_transport =
     Inr (2, example_transport\<lparr>recv_backlog := 1, recv_head := 1, cqe_idx := 0,
                               prev_snapshot := 7\<rparr>)"
    by (simp add: example_cfg_simps example_transport_def)
  with a1 a4 a5 a7 show ?thesis
    by (simp add: example_transport_def)
qed

text \<open>
  Claim C5. In emulated mode, when the delta is zero or at least \<open>kNumRxRingEntries\<close>,
  \<^verbatim>\<open>rx_burst\<close> returns 0 and the state after the call is the state before it:
  \<open>recv_head\<close>, \<open>recv_backlog\<close>, \<open>prev_snapshot\<close> and \<open>cqe_idx\<close> are unchanged.
\<close>

theorem rx_burst_stale_read_no_effect:
  assumes "kDumb cfg"
    and "unat (cqe_idx s) < length (recv_cqe_arr s)"
    and "d = get_cqe_cycle_delta cfg (prev_snapshot s) (recv_cqe_arr s ! unat (cqe_idx s))"
    and "d = 0 \<or> kNumRxRingEntries cfg \<le> d"
  shows "rx_burst cfg s = Inr (0, s)"
  using assms unfolding rx_burst_def by (auto simp add: Let_def)

theorem rx_burst_stale_read_no_effect_witness:
  "rx_burst example_cfg (example_transport\<lparr>prev_snapshot := 7\<rparr>) =
     Inr (0, example_transport\<lparr>prev_snapshot := 7\<rparr>) \<and>
   rx_burst (example_cfg\<lparr>get_cqe_cycle_delta := \<lambda>S0 S1. S1 - S0\<rparr>)
            (example_transport\<lparr>prev_snapshot := 7, recv_cqe_arr := [0, 16]\<rparr>) =
     Inr (0, example_transport\<lparr>prev_snapshot := 7, recv_cqe_arr := [0, 16]\<rparr>)"
  using rx_burst_stale_read_no_effect
          [of example_cfg "example_transport\<lparr>prev_snapshot := 7\<rparr>" 0]
        rx_burst_stale_read_no_effect
          [of "example_cfg\<lparr>get_cqe_cycle_delta := \<lambda>S0 S1. S1 - S0\<rparr>"
              "example_transport\<lparr>prev_snapshot := 7, recv_cqe_arr := [0, 16]\<rparr>" 9]
  by (simp add: example_cfg_simps example_transport_def)


subsection \<open>\<^verbatim>\<open>post_recvs\<close>\<close>

text \<open>
  Claim C6. A call of \<^verbatim>\<open>post_recvs\<close> adds \<open>num_recvs\<close> to the pending counter. While
  the sum stays below the threshold (\<open>kStridesPerWQE\<close> in striding mode, \<open>kRecvSlack\<close>
  otherwise) the call changes the counter only: no driver call is logged. When the sum
  reaches the threshold and the post succeeds, exactly one driver call is appended to
  the log and the counter becomes the sum minus \<open>kStridesPerWQE\<close> in striding mode, and
  0 on the fast path. The statement holds in every state, so for every call of every
  sequence of calls.
\<close>

theorem post_recvs_accumulates_then_posts:
  assumes pre: "ndebug cfg \<or> num_recvs \<le> kNumRxRingEntries cfg"
    and acc: "acc = recvs_to_post s + num_recvs"
    and thr: "threshold = (if kDumb cfg then kStridesPerWQE cfg else kRecvSlack cfg)"
    and call: "call = (if kDumb cfg then Recv_burst (mp_sge_idx s)
                       else Ibv_post_recv_fast (kMagicWrIDForFastRecv cfg) (ucast acc))"
  shows "(acc < threshold \<longrightarrow>
            post_recvs cfg num_recvs s = Inr (s\<lparr>recvs_to_post := acc\<rparr>)) \<and>
         (threshold \<le> acc \<and> driver cfg (hw_log s @ [call]) = 0 \<and>
          (kDumb cfg \<longrightarrow> kRQDepth cfg \<noteq> 0) \<longrightarrow>
            post_recvs cfg num_recvs s =
              Inr (if kDumb cfg
                   then s\<lparr>recvs_to_post := acc - kStridesPerWQE cfg,
                          mp_sge_idx := (mp_sge_idx s + 1) mod kRQDepth cfg,
                          hw_log := hw_log s @ [call]\<rparr>
                   else s\<lparr>recvs_to_post := 0, hw_log := hw_log s @ [call]\<rparr>))"
proof (intro conjI impI)
  assume "acc < threshold"
  then show "post_recvs cfg num_recvs s = Inr (s\<lparr>recvs_to_post := acc\<rparr>)"
    using pre unfolding post_recvs_def acc thr
    by (cases "kDumb cfg") (simp_all add: Let_def)
next
  assume h: "threshold \<le> acc \<and> driver cfg (hw_log s @ [call]) = 0 \<and>
             (kDumb cfg \<longrightarrow> kRQDepth cfg \<noteq> 0)"
  show "post_recvs cfg num_recvs s =
          Inr (if kDumb cfg
               then s\<lparr>recvs_to_post := acc - kStridesPerWQE cfg,
                      mp_sge_idx := (mp_sge_idx s + 1) mod kRQDepth cfg,
                      hw_log := hw_log s @ [call]\<rparr>
               else s\<lparr>recvs_to_post := 0, hw_log := hw_log s @ [call]\<rparr>)"
  proof (cases "kDumb cfg")
    case True
    with h pre show ?thesis
      unfolding post_recvs_def acc thr call
      by (simp add: Let_def not_less [symmetric])
  next
    case False
    with h pre show ?thesis
      unfolding post_recvs_def acc thr call
      by (simp add: Let_def not_less [symmetric])
  qed
qed

theorem post_recvs_accumulates_then_posts_witness:
  "post_recvs example_cfg 1 example_transport = Inr (example_transport\<lparr>recvs_to_post := 1\<rparr>) \<and>
   post_recvs example_cfg 3 example_transport =
     Inr (example_transport\<lparr>recvs_to_post := 1, mp_sge_idx := 2, hw_log := [Recv_burst 1]\<rparr>) \<and>
   post_recvs (example_cfg\<lparr>kDumb := False\<rparr>) 3 example_transport =
     Inr (example_transport\<lparr>recvs_to_post := 0, hw_log := [Ibv_post_recv_fast 3185 3]\<rparr>)"
proof -
  have thr: "(2 :: size_t) = (if kDumb example_cfg then kStridesPerWQE example_cfg
                              else kRecvSlack example_cfg)"
    by (simp add: example_cfg_simps)
  have pre1: "ndebug example_cfg \<or> 1 \<le> kNumRxRingEntries example_cfg"
    by (simp add: example_cfg_simps)
  have acc1: "(1 :: size_t) = recvs_to_post example_transport + 1"
    by (simp add: example_transport_def)
  have call1: "Recv_burst 1 =
      (if kDumb example_cfg then Recv_burst (mp_sge_idx example_transport)
       else Ibv_post_recv_fast (kMagicWrIDForFastRecv example_cfg) (ucast (1 :: size_t)))"
    by (simp add: example_cfg_simps example_transport_def)
  from post_recvs_accumulates_then_posts [OF pre1 acc1 thr call1]
  have c1: "post_recvs example_cfg 1 example_transport =
      Inr (example_transport\<lparr>recvs_to_post := 1\<rparr>)"
    by simp
  have pre3: "ndebug example_cfg \<or> 3 \<le> kNumRxRingEntries example_cfg"
    by (simp add: example_cfg_simps)
  have acc3: "(3 :: size_t) = recvs_to_post example_transport + 3"
    by (simp add: example_transport_def)
  have call3: "Recv_burst 1 =
      (if kDumb example_cfg then Recv_burst (mp_sge_idx example_transport)
       else Ibv_post_recv_fast (kMagicWrIDForFastRecv example_cfg) (ucast (3 :: size_t)))"
    by (simp add: example_cfg_simps example_transport_def)
  from post_recvs_accumulates_then_posts [OF pre3 acc3 thr call3]
  have c3: "post_recvs example_cfg 3 example_transport =
      Inr (example_transport\<lparr>recvs_to_post := 1, mp_sge_idx := 2, hw_log := [Recv_burst 1]\<rparr>)"
    by (simp add: example_cfg_simps example_transport_def)
  have thrf: "(2 :: size_t) =
      (if kDumb (example_cfg\<lparr>kDumb := False\<rparr>) then kStridesPerWQE (example_cfg\<lparr>kDumb := False\<rparr>)
       else kRecvSlack (example_cfg\<lparr>kDumb := False\<rparr>))"
    by (simp add: example_cfg_simps)
  have pref: "ndebug (example_cfg\<lparr>kDumb := False\<rparr>) \<or>
      3 \<le> kNumRxRingEntries (example_cfg\<lparr>kDumb := False\<rparr>)"
    by (simp add: example_cfg_simps)
  have callf: "Ibv_post_recv_fast 3185 3 =
      (if kDumb (example_cfg\<lparr>kDumb := False\<rparr>) then Recv_burst (mp_sge_idx example_transport)
       else Ibv_post_recv_fast (kMagicWrIDForFastRecv (example_cfg\<lparr>kDumb := False\<rparr>))
              (ucast (3 :: size_t)))"
    by (simp add: example_cfg_simps)
  from post_recvs_accumulates_then_posts [OF pref acc3 thrf callf]
  have cf: "post_recvs (example_cfg\<lparr>kDumb := False\<rparr>) 3 example_transport =
      Inr (example_transport\<lparr>recvs_to_post := 0, hw_log := [Ibv_post_recv_fast 3185 3]\<rparr>)"
    by (simp add: example_cfg_simps example_transport_def)
  from c1 c3 cf show ?thesis by simp
qed

text \<open>
  The code of lines 165 to 190 is never reached: whatever the constants, a call that
  returns has left \<open>recv_head\<close> and \<^verbatim>\<open>recv_wr\<close> as they were.
\<close>

lemma post_recvs_keeps_ring:
  assumes "post_recvs cfg num_recvs s = Inr s'"
  shows "recv_head s' = recv_head s \<and> recv_wr s' = recv_wr s"
  using assms unfolding post_recvs_def
  by (auto simp add: Let_def split: if_splits)

text \<open>
  Claim C8, as amended. In a state whose pending counter is below the threshold,
  \<^verbatim>\<open>post_recvs(0)\<close> returns the state it was given: no driver call, the counter and
  every index unchanged.
\<close>

theorem post_recvs_zero_below_threshold:
  assumes "recvs_to_post s < (if kDumb cfg then kStridesPerWQE cfg else kRecvSlack cfg)"
  shows "post_recvs cfg 0 s = Inr s"
  using assms unfolding post_recvs_def
  by (cases "kDumb cfg") (simp_all add: Let_def)

theorem post_recvs_zero_below_threshold_witness:
  "recvs_to_post (example_transport\<lparr>recvs_to_post := 1\<rparr>) < kStridesPerWQE example_cfg \<and>
   post_recvs example_cfg 0 (example_transport\<lparr>recvs_to_post := 1\<rparr>) =
     Inr (example_transport\<lparr>recvs_to_post := 1\<rparr>)"
proof -
  have h: "recvs_to_post (example_transport\<lparr>recvs_to_post := 1\<rparr>)
      < (if kDumb example_cfg then kStridesPerWQE example_cfg else kRecvSlack example_cfg)"
    by (simp add: example_cfg_simps)
  from post_recvs_zero_below_threshold [OF h] show ?thesis
    by (simp add: example_cfg_simps)
qed

text \<open>
  The claim as stated, for every state, fails. In striding mode one call can leave the
  counter at or above the threshold: \<^verbatim>\<open>post_recvs(4)\<close> with a stride of 2 posts once and
  leaves 2 pending. \<^verbatim>\<open>post_recvs(0)\<close> in that state posts again, and changes the
  counter and \<open>mp_sge_idx\<close>.
\<close>

theorem post_recvs_zero_posts_counterexample:
  "post_recvs example_cfg 4 example_transport =
     Inr (example_transport\<lparr>recvs_to_post := 2, mp_sge_idx := 2, hw_log := [Recv_burst 1]\<rparr>) \<and>
   post_recvs example_cfg 0
       (example_transport\<lparr>recvs_to_post := 2, mp_sge_idx := 2, hw_log := [Recv_burst 1]\<rparr>) =
     Inr (example_transport\<lparr>recvs_to_post := 0, mp_sge_idx := 3,
                             hw_log := [Recv_burst 1, Recv_burst 2]\<rparr>) \<and>
   post_recvs example_cfg 0
       (example_transport\<lparr>recvs_to_post := 2, mp_sge_idx := 2, hw_log := [Recv_burst 1]\<rparr>) \<noteq>
     Inr (example_transport\<lparr>recvs_to_post := 2, mp_sge_idx := 2, hw_log := [Recv_burst 1]\<rparr>)"
  by (simp add: post_recvs_def example_cfg_simps example_transport_def Let_def)

subsection \<open>Failure of a hardware post\<close>

text \<open>
  A nonzero return code of \<^verbatim>\<open>ibv_post_send\<close> in \<^verbatim>\<open>tx_burst\<close>, or of \<^verbatim>\<open>ibv_post_recv\<close> in
  \<^verbatim>\<open>post_recvs\<close> outside striding mode, ends the process: the call does not return a
  state. With \<^verbatim>\<open>NDEBUG\<close> the diagnostic is printed and the process exits with status
  -1; in \<^verbatim>\<open>tx_burst\<close> without \<^verbatim>\<open>NDEBUG\<close> the \<^verbatim>\<open>assert(ret == 0)\<close> before the test ends
  it. In both cases the driver calls made by the call are exactly the one failed post:
  no retry, no second post.
\<close>

theorem hardware_post_failure_is_fatal:
  "(tx_burst_loop cfg arr 0 (unat n) s = Inr s1 \<and> unat (n - 1) < length (send_wr s1) \<and>
    lg = hw_log s @
      [Ibv_post_send 0
         ((send_wr s1)[unat (n - 1) := (send_wr s1 ! unat (n - 1))\<lparr>wr_next := None\<rparr>])
         (send_sgl s1)] \<and>
    driver cfg lg \<noteq> 0 \<longrightarrow>
      tx_burst cfg arr n s =
        Inl (if ndebug cfg then ProcessExit (- 1) (Post_send_failed (driver cfg lg)) lg
             else AssertionFailed lg)) \<and>
   (\<not> kDumb cfg \<and> (ndebug cfg \<or> num_recvs \<le> kNumRxRingEntries cfg) \<and>
    kRecvSlack cfg \<le> recvs_to_post t + num_recvs \<and>
    lg' = hw_log t @
      [Ibv_post_recv_fast (kMagicWrIDForFastRecv cfg) (ucast (recvs_to_post t + num_recvs))] \<and>
    driver cfg lg' \<noteq> 0 \<longrightarrow>
      post_recvs cfg num_recvs t =
        Inl (ProcessExit (- 1) (Post_recv_fast_error (driver cfg lg')) lg'))"
proof (intro conjI impI)
  assume a: "tx_burst_loop cfg arr 0 (unat n) s = Inr s1 \<and> unat (n - 1) < length (send_wr s1) \<and>
    lg = hw_log s @
      [Ibv_post_send 0
         ((send_wr s1)[unat (n - 1) := (send_wr s1 ! unat (n - 1))\<lparr>wr_next := None\<rparr>])
         (send_sgl s1)] \<and>
    driver cfg lg \<noteq> 0"
  then have loop: "tx_burst_loop cfg arr 0 (unat n) s = Inr s1"
    and inb: "unat (n - 1) < length (send_wr s1)"
    and lg: "lg = hw_log s @
      [Ibv_post_send 0
         ((send_wr s1)[unat (n - 1) := (send_wr s1 ! unat (n - 1))\<lparr>wr_next := None\<rparr>])
         (send_sgl s1)]"
    and ret: "driver cfg lg \<noteq> 0"
    by blast+
  from tx_burst_loop_frame [OF loop] have "hw_log s1 = hw_log s"
    by simp
  with loop inb ret show "tx_burst cfg arr n s =
        Inl (if ndebug cfg then ProcessExit (- 1) (Post_send_failed (driver cfg lg)) lg
             else AssertionFailed lg)"
    unfolding lg by (simp add: tx_burst_def Let_def)
next
  assume "\<not> kDumb cfg \<and> (ndebug cfg \<or> num_recvs \<le> kNumRxRingEntries cfg) \<and>
    kRecvSlack cfg \<le> recvs_to_post t + num_recvs \<and>
    lg' = hw_log t @
      [Ibv_post_recv_fast (kMagicWrIDForFastRecv cfg) (ucast (recvs_to_post t + num_recvs))] \<and>
    driver cfg lg' \<noteq> 0"
  then have "\<not> kDumb cfg" "ndebug cfg \<or> num_recvs \<le> kNumRxRingEntries cfg"
    "kRecvSlack cfg \<le> recvs_to_post t + num_recvs"
    and lg': "lg' = hw_log t @
      [Ibv_post_recv_fast (kMagicWrIDForFastRecv cfg) (ucast (recvs_to_post t + num_recvs))]"
    and "driver cfg lg' \<noteq> 0"
    by blast+
  then show "post_recvs cfg num_recvs t =
        Inl (ProcessExit (- 1) (Post_recv_fast_error (driver cfg lg')) lg')"
    unfolding post_recvs_def lg'
    by (simp add: Let_def not_less [symmetric])
qed

theorem hardware_post_failure_is_fatal_witness:
  "tx_burst (example_cfg\<lparr>ndebug := True, driver := \<lambda>lg. 5\<rparr>) example_items 2 example_transport =
     Inl (ProcessExit (- 1) (Post_send_failed 5) [example_post_send]) \<and>
   tx_burst (example_cfg\<lparr>driver := \<lambda>lg. 5\<rparr>) example_items 2 example_transport =
     Inl (AssertionFailed [example_post_send]) \<and>
   post_recvs (example_cfg\<lparr>kDumb := False, driver := \<lambda>lg. 5\<rparr>) 3 example_transport =
     Inl (ProcessExit (- 1) (Post_recv_fast_error 5) [Ibv_post_recv_fast 3185 3])"
proof -
  let ?rel = "example_cfg\<lparr>ndebug := True, driver := \<lambda>lg. 5\<rparr>"
  let ?dbg = "example_cfg\<lparr>driver := \<lambda>lg. 5\<rparr>"
  let ?fast = "example_cfg\<lparr>kDumb := False, driver := \<lambda>lg. 5\<rparr>"
  have inb: "unat ((2 :: size_t) - 1) < length (send_wr example_filled)"
    by (simp add: example_filled_def)
  have lg: "[example_post_send] = hw_log example_transport @
      [Ibv_post_send 0
         ((send_wr example_filled)
            [unat ((2 :: size_t) - 1) :=
               (send_wr example_filled ! unat ((2 :: size_t) - 1))\<lparr>wr_next := None\<rparr>])
         (send_sgl example_filled)]"
    by (simp add: example_post_send_def example_transport_def)
  have loop_rel: "tx_burst_loop ?rel example_items 0 (unat (2 :: size_t)) example_transport =
      Inr example_filled"
    by code_simp
  have ret_rel: "driver ?rel [example_post_send] \<noteq> 0"
    by simp
  from hardware_post_failure_is_fatal
         [of ?rel example_items 2 example_transport example_filled "[example_post_send]"]
       loop_rel inb lg ret_rel
  have "tx_burst ?rel example_items 2 example_transport =
      Inl (if ndebug ?rel then ProcessExit (- 1) (Post_send_failed (driver ?rel [example_post_send]))
                                 [example_post_send]
           else AssertionFailed [example_post_send])"
    by blast
  then have c1: "tx_burst ?rel example_items 2 example_transport =
      Inl (ProcessExit (- 1) (Post_send_failed 5) [example_post_send])"
    by simp
  have loop_dbg: "tx_burst_loop ?dbg example_items 0 (unat (2 :: size_t)) example_transport =
      Inr example_filled"
    by code_simp
  have ret_dbg: "driver ?dbg [example_post_send] \<noteq> 0"
    by simp
  from hardware_post_failure_is_fatal
         [of ?dbg example_items 2 example_transport example_filled "[example_post_send]"]
       loop_dbg inb lg ret_dbg
  have "tx_burst ?dbg example_items 2 example_transport =
      Inl (if ndebug ?dbg then ProcessExit (- 1) (Post_send_failed (driver ?dbg [example_post_send]))
                                 [example_post_send]
           else AssertionFailed [example_post_send])"
    by blast
  then have c2: "tx_burst ?dbg example_items 2 example_transport =
      Inl (AssertionFailed [example_post_send])"
    by (simp add: example_cfg_simps)
  have f1: "\<not> kDumb ?fast" "ndebug ?fast \<or> 3 \<le> kNumRxRingEntries ?fast"
    "kRecvSlack ?fast \<le> recvs_to_post example_transport + 3"
    by (simp_all add: example_cfg_simps example_transport_def)
  have f2: "[Ibv_post_recv_fast 3185 3] = hw_log example_transport @
      [Ibv_post_recv_fast (kMagicWrIDForFastRecv ?fast)
         (ucast (recvs_to_post example_transport + 3))]"
    by (simp add: example_cfg_simps example_transport_def)
  have f3: "driver ?fast [Ibv_post_recv_fast 3185 3] \<noteq> 0"
    by simp
  from hardware_post_failure_is_fatal
         [of ?fast _ _ _ _ _ 3 example_transport "[Ibv_post_recv_fast 3185 3]"]
       f1 f2 f3
  have "post_recvs ?fast 3 example_transport =
      Inl (ProcessExit (- 1)
             (Post_recv_fast_error (driver ?fast [Ibv_post_recv_fast 3185 3]))
             [Ibv_post_recv_fast 3185 3])"
    by blast
  then have c3: "post_recvs ?fast 3 example_transport =
      Inl (ProcessExit (- 1) (Post_recv_fast_error 5) [Ibv_post_recv_fast 3185 3])"
    by simp
  from c1 c2 c3 show ?thesis by blast
qed

text \<open>
  Claim C7. A nonzero return code of a hardware submission is to end the process, in
  \<^verbatim>\<open>tx_burst\<close> and in every \<^verbatim>\<open>post_recvs\<close> call. The striding branch of \<^verbatim>\<open>post_recvs\<close>
  does not do that: lines 137 to 139 only assert the return code of \<^verbatim>\<open>recv_burst\<close>,
  where the other posts also test it and exit. With \<^verbatim>\<open>NDEBUG\<close> a post that fails with
  code 5 is taken as done: the call returns, \<open>mp_sge_idx\<close> has advanced and the stride is
  subtracted from the pending counter.
\<close>

theorem post_recvs_striding_failure_returns:
  "kDumb (example_cfg\<lparr>ndebug := True, driver := \<lambda>lg. 5\<rparr>) \<and>
   driver (example_cfg\<lparr>ndebug := True, driver := \<lambda>lg. 5\<rparr>) [Recv_burst 1] = 5 \<and>
   post_recvs (example_cfg\<lparr>ndebug := True, driver := \<lambda>lg. 5\<rparr>) 3 example_transport =
     Inr (example_transport\<lparr>recvs_to_post := 1, mp_sge_idx := 2, hw_log := [Recv_burst 1]\<rparr>)"
  by (simp add: post_recvs_def example_cfg_simps example_transport_def Let_def)

end
